theory Spec2Isabelle
  imports Main "HOL-Library.Word"
begin

section \<open>JavaScript strings and JSON text\<close>

text \<open>
  A JavaScript string is a sequence of 16-bit code units. The string of a literal of the
  source (all of them ASCII) is written \<open>lit\<close>.
\<close>

type_synonym code_unit = "16 word"

type_synonym jsstring = "code_unit list"

definition lit :: "string \<Rightarrow> jsstring" where
  "lit s = map of_char s"

definition backslash :: code_unit where
  "backslash = 0x5C"

definition quote :: code_unit where
  "quote = 0x27"

definition dquote :: code_unit where
  "dquote = 0x22"

definition newline :: code_unit where
  "newline = 0x0A"

definition creturn :: code_unit where
  "creturn = 0x0D"

text \<open>
  \<^verbatim>\<open>s.replaceAll(c, rep)\<close> for a search string of one code unit, which is what both
  calls in \<^verbatim>\<open>emit\<close> pass: every occurrence, left to right, is replaced (neither
  replacement string holds a \<^verbatim>\<open>$\<close> pattern).
\<close>

primrec replaceAll :: "jsstring \<Rightarrow> code_unit \<Rightarrow> jsstring \<Rightarrow> jsstring" where
  "replaceAll [] c rep = []"
| "replaceAll (x # xs) c rep = (if x = c then rep else [x]) @ replaceAll xs c rep"

text \<open>
  The escaping in \<^verbatim>\<open>emit\<close>:
  \<^verbatim>\<open>JSON.stringify(encoded).replaceAll('\\', '\\\\').replaceAll('\'', '\\\'')\<close>.
\<close>

definition escapePayload :: "jsstring \<Rightarrow> jsstring" where
  "escapePayload s =
     replaceAll (replaceAll s backslash [backslash, backslash]) quote [backslash, quote]"


text \<open>
  A JavaScript number is a double. ECMAScript's \<^verbatim>\<open>Number::toString\<close> prints a finite
  nonzero double from its sign and the two integers \<open>s\<close> and \<open>n\<close> it determines: \<open>s\<close>
  holds the \<open>k\<close> decimal digits of the shortest decimal that reads back to the double,
  whose value is \<open>s\<close> times ten to the power \<open>n - k\<close>. A finite number is given here by
  that sign, \<open>s\<close> and \<open>n\<close>; \<open>s = 0\<close> is zero. Every double is one of these values (not
  every one of them is a double).
\<close>

datatype number =
    NaN
  | Infinity bool
  | Finite bool nat int

definition digit :: "nat \<Rightarrow> code_unit" where
  "digit n = lit ''0123456789'' ! (n mod 10)"

fun digits :: "nat \<Rightarrow> jsstring" where
  "digits n = (if n < 10 then [digit n] else digits (n div 10) @ [digit n])"

declare digits.simps [simp del]

definition NumberToString :: "number \<Rightarrow> jsstring" where
  "NumberToString x =
     (case x of
        NaN \<Rightarrow> lit ''NaN''
      | Infinity negative \<Rightarrow> (if negative then lit ''-Infinity'' else lit ''Infinity'')
      | Finite negative s n \<Rightarrow>
          if s = 0 then lit ''0''
          else
            (if negative then lit ''-'' else []) @
            (let ds = digits s;
                 k = int (length ds);
                 e = digits (nat \<bar>n - 1\<bar>);
                 sign = (if n - 1 < 0 then lit ''-'' else lit ''+'')
             in if k \<le> n \<and> n \<le> 21 then ds @ replicate (nat (n - k)) (digit 0)
                else if 0 < n \<and> n \<le> 21 then take (nat n) ds @ lit ''.'' @ drop (nat n) ds
                else if - 6 < n \<and> n \<le> 0 then lit ''0.'' @ replicate (nat (- n)) (digit 0) @ ds
                else if k = 1 then ds @ lit ''e'' @ sign @ e
                else take 1 ds @ lit ''.'' @ drop 1 ds @ lit ''e'' @ sign @ e))"

text \<open>
  A JSON-compatible value: what \<^verbatim>\<open>JSON.stringify\<close> serialises without calling into the
  value. An object is the list of its own enumerable properties in enumeration order.
\<close>

datatype json =
    JNull
  | JBool bool
  | JNum number
  | JStr jsstring
  | JArr "json list"
  | JObj "(jsstring \<times> json) list"

text \<open>
  \<^verbatim>\<open>JSON.stringify\<close> with one argument, following ECMAScript's SerializeJSONProperty and
  QuoteJSONString. A string is wrapped in double quotes; it is read code point by code
  point, a leading surrogate followed by a trailing one being one code point, written as
  the two units it is; the double quote, the backslash and the control characters with a
  short escape are written as that escape, every other code unit below U+0020 and every
  surrogate without its partner as \<^verbatim>\<open>\u\<close> and four lower-case hexadecimal digits. A
  number that is not finite is written \<^verbatim>\<open>null\<close>.
\<close>

definition hexdigit :: "nat \<Rightarrow> code_unit" where
  "hexdigit n = lit ''0123456789abcdef'' ! (n mod 16)"

definition UnicodeEscape :: "code_unit \<Rightarrow> jsstring" where
  "UnicodeEscape c =
     [backslash, 0x75, hexdigit (unat c div 4096), hexdigit (unat c div 256),
      hexdigit (unat c div 16), hexdigit (unat c)]"

definition leading_surrogate :: "code_unit \<Rightarrow> bool" where
  "leading_surrogate c = (0xD800 \<le> c \<and> c \<le> 0xDBFF)"

definition trailing_surrogate :: "code_unit \<Rightarrow> bool" where
  "trailing_surrogate c = (0xDC00 \<le> c \<and> c \<le> 0xDFFF)"

definition QuoteJSONCodeUnit :: "code_unit \<Rightarrow> jsstring" where
  "QuoteJSONCodeUnit c =
     (if c = 0x08 then [backslash, 0x62]
      else if c = 0x09 then [backslash, 0x74]
      else if c = newline then [backslash, 0x6E]
      else if c = 0x0C then [backslash, 0x66]
      else if c = creturn then [backslash, 0x72]
      else if c = dquote then [backslash, dquote]
      else if c = backslash then [backslash, backslash]
      else if c < 0x20 \<or> leading_surrogate c \<or> trailing_surrogate c then UnicodeEscape c
      else [c])"

fun QuoteJSONCodeUnits :: "jsstring \<Rightarrow> jsstring" where
  "QuoteJSONCodeUnits [] = []"
| "QuoteJSONCodeUnits [c] = QuoteJSONCodeUnit c"
| "QuoteJSONCodeUnits (c # d # cs) =
     (if leading_surrogate c \<and> trailing_surrogate d then c # d # QuoteJSONCodeUnits cs
      else QuoteJSONCodeUnit c @ QuoteJSONCodeUnits (d # cs))"

definition QuoteJSONString :: "jsstring \<Rightarrow> jsstring" where
  "QuoteJSONString s = [dquote] @ QuoteJSONCodeUnits s @ [dquote]"

primrec join :: "jsstring list \<Rightarrow> jsstring \<Rightarrow> jsstring" where
  "join [] sep = []"
| "join (x # xs) sep = (if xs = [] then x else x @ sep @ join xs sep)"

fun JSON_stringify :: "json \<Rightarrow> jsstring" where
  "JSON_stringify JNull = lit ''null''"
| "JSON_stringify (JBool b) = (if b then lit ''true'' else lit ''false'')"
| "JSON_stringify (JNum x) =
     (case x of Finite negative s n \<Rightarrow> NumberToString x | _ \<Rightarrow> lit ''null'')"
| "JSON_stringify (JStr s) = QuoteJSONString s"
| "JSON_stringify (JArr xs) = lit ''['' @ join (map JSON_stringify xs) (lit '','') @ lit '']''"
| "JSON_stringify (JObj kvs) =
     lit ''{'' @
     join (map (\<lambda>kv. QuoteJSONString (fst kv) @ lit '':'' @ JSON_stringify (snd kv)) kvs) (lit '','')
     @ lit ''}''"

text \<open>
  What the page's JavaScript engine makes of the code units that follow the opening quote
  of a single-quoted string literal: the literal's value and the rest of the script after
  the closing quote, or nothing when the script is malformed there. An unescaped quote
  ends the literal, an unescaped line feed or carriage return or the end of the script is a
  syntax error (U+2028 and U+2029 may stand in a string literal since ECMAScript 2019), a
  backslash takes the next code unit as an escape. Numeric escapes (\<^verbatim>\<open>\x\<close>, \<^verbatim>\<open>\u\<close>,
  digits) and line continuations are outside this reader and read as malformed.
\<close>

definition SingleEscapeCharacter :: "code_unit \<Rightarrow> jsstring option" where
  "SingleEscapeCharacter e =
     (if e = 0x62 then Some [0x08]
      else if e = 0x74 then Some [0x09]
      else if e = 0x6E then Some [newline]
      else if e = 0x76 then Some [0x0B]
      else if e = 0x66 then Some [0x0C]
      else if e = 0x72 then Some [creturn]
      else if e = newline \<or> e = creturn \<or> e = 0x2028 \<or> e = 0x2029 then None
      else if e = 0x78 \<or> e = 0x75 \<or> e \<in> set (lit ''0123456789'') then None
      else Some [e])"

fun readSingleQuoted :: "jsstring \<Rightarrow> (jsstring \<times> jsstring) option" where
  "readSingleQuoted [] = None"
| "readSingleQuoted [c] = (if c = quote then Some ([], []) else None)"
| "readSingleQuoted (c # e # cs) =
     (if c = quote then Some ([], e # cs)
      else if c = newline \<or> c = creturn then None
      else if c = backslash then
        (case SingleEscapeCharacter e of
           None \<Rightarrow> None
         | Some v \<Rightarrow>
             (case readSingleQuoted cs of
                None \<Rightarrow> None
              | Some (s, rest) \<Rightarrow> Some (v @ s, rest)))
      else
        (case readSingleQuoted (e # cs) of
           None \<Rightarrow> None
         | Some (s, rest) \<Rightarrow> Some (c # s, rest)))"

text \<open>
  A text with no line feed and no carriage return in it, the two code units the reader
  above refuses inside a literal.
\<close>

definition terminator_free :: "jsstring \<Rightarrow> bool" where
  "terminator_free s = (newline \<notin> set s \<and> creturn \<notin> set s)"


section \<open>JavaScript values crossing the bridge\<close>

text \<open>
  The bridge of \<^verbatim>\<open>cdp-socket\<close> (classes \<^verbatim>\<open>CDPSocketServer\<close> and \<^verbatim>\<open>CDPSocket\<close>) moves
  event names and argument lists between a server process and a page. Arguments are
  \<^verbatim>\<open>any[]\<close> in the source; the only thing the bridge ever asks about an argument is
  whether it is a function, so a value is a function or it is not: JSON data, or a symbol.
  A function is either one handed in by calling code (opaque, known by a number) or the
  acknowledgement callback that \<^verbatim>\<open>processCDPRuntimeBinding\<close> builds, which closes over
  its socket and the acknowledgement event name.
\<close>

datatype callback =
    UserFn nat
  | AckFn nat jsstring

datatype jsval =
    Data json
  | Function callback
  | Symbol nat

text \<open>The envelope \<^verbatim>\<open>[event, callbackEvent, args]\<close>.\<close>

type_synonym envelope = "jsstring \<times> jsstring \<times> jsval list"

text \<open>
  A call returns a value or throws. What it did to the objects before it threw stays done,
  so a call yields a completion together with the world it leaves. \<open>and_then\<close> is the
  sequencing of statements: what follows a call runs only if the call returned.
\<close>

datatype js_error =
    EncodeRejected
  | DecodeRejected
  | JSONSyntaxError
  | UnhandledErrorEvent
  | RangeError
  | TypeError

datatype 'a completion =
    Return 'a
  | Throw js_error

definition and_then ::
  "'a completion \<times> 'w \<Rightarrow> ('a \<Rightarrow> 'w \<Rightarrow> 'b completion \<times> 'w) \<Rightarrow> 'b completion \<times> 'w" where
  "and_then r k = (case r of (Return x, w) \<Rightarrow> k x w | (Throw e, w) \<Rightarrow> (Throw e, w))"

section \<open>The event emitter both classes extend\<close>

text \<open>
  Node's \<^verbatim>\<open>EventEmitter\<close> keeps its listeners in registration order, under an event name
  that is a string or a symbol. \<^verbatim>\<open>once\<close> registers a listener that is taken off the list
  just before its first call; \<^verbatim>\<open>on\<close> registers one that stays. The emitter announces
  its own work through three names: \<^verbatim>\<open>newListener\<close> before a listener is added,
  \<^verbatim>\<open>removeListener\<close> after one is removed, and the symbol \<^verbatim>\<open>errorMonitor\<close> before an
  \<^verbatim>\<open>error\<close> event is dispatched.
\<close>

datatype event_name =
    Name jsstring
  | SymbolName nat

definition errorMonitor :: event_name where
  "errorMonitor = SymbolName 0"

fun name_value :: "event_name \<Rightarrow> jsval" where
  "name_value (Name s) = Data (JStr s)"
| "name_value (SymbolName n) = Symbol n"

record listener =
  l_event :: event_name
  l_fn :: callback
  l_once :: bool

section \<open>The remote debugging client\<close>

text \<open>
  Modelled from the spec: the type \<^verbatim>\<open>CDPClient\<close> of \<^verbatim>\<open>@packages/types\<close> is not among
  the sources. The spec's contract for it is \<^verbatim>\<open>send(method, params)\<close>, a request that
  resolves or rejects, and \<^verbatim>\<open>on\<close> / \<^verbatim>\<open>off\<close>, which subscribe and unsubscribe a
  handler of the binding-invocation notification. A client is the list of subscribed
  handlers (each is the \<^verbatim>\<open>processCDPRuntimeBinding\<close> of one socket, so it is known by
  that socket's number), the commands sent so far, and which commands it rejects.
  \<^verbatim>\<open>off\<close> takes away one subscription of the handler, the most recent, as an event
  emitter does.
\<close>

datatype cdp_command =
    Runtime_enable
  | Runtime_addBinding jsstring
  | Runtime_evaluate jsstring "nat option"

record cdp_client =
  handlers :: "nat list"
  sent :: "cdp_command list"
  rejects :: "cdp_command \<Rightarrow> bool"

record bindingCalledEvent =
  bc_name :: jsstring
  bc_payload :: jsstring
  bc_executionContextId :: nat

definition client_on :: "nat list \<Rightarrow> nat \<Rightarrow> nat list" where
  "client_on hs h = hs @ [h]"

definition client_off :: "nat list \<Rightarrow> nat \<Rightarrow> nat list" where
  "client_off hs h = rev (remove1 h (rev hs))"

section \<open>The objects and the world they live in\<close>

text \<open>
  Sockets, servers and clients are objects with identity, and a client is shared by the
  sockets listening on it, so they live in stores and are referred to by position.
  A new object goes to the end of its store.

  \<^verbatim>\<open>encode\<close> and \<^verbatim>\<open>decode\<close> of \<^verbatim>\<open>./utils\<close> return promises; a promise that has not
  settled yet is an entry of \<^verbatim>\<open>pending\<close>, and its \<^verbatim>\<open>then\<close> callback runs when the
  environment settles it. \<^verbatim>\<open>calls\<close> records every call of a function of the calling
  code, \<^verbatim>\<open>unhandled\<close> every rejection that no handler took.
\<close>

record CDPSocket =
  cdpClient :: "nat option"
  namespace :: jsstring
  executionContextId :: "nat option"
  listeners :: "listener list"

record CDPSocketServer =
  cdpSocket :: "nat option"
  fullNamespace :: jsstring
  path :: jsstring
  namespaceMap :: "(jsstring \<times> nat) list"
  server_listeners :: "listener list"

datatype pending_promise =
    Encoding nat envelope
  | Decoding nat json

record world =
  servers :: "CDPSocketServer list"
  sockets :: "CDPSocket list"
  clients :: "cdp_client list"
  pending :: "pending_promise list"
  uuid_count :: nat
  calls :: "(nat \<times> jsval list) list"
  unhandled :: "js_error list"

text \<open>
  What the bridge uses and does not define: the codec of \<^verbatim>\<open>./utils\<close> (a rejected
  promise is \<^verbatim>\<open>None\<close>), \<^verbatim>\<open>JSON.parse\<close> (a syntax error is \<^verbatim>\<open>None\<close>),
  \<^verbatim>\<open>randomUUID\<close>, whose \<open>n\<close>-th call returns \<^verbatim>\<open>randomUUID ext n\<close>, and the engine's
  call stack: \<^verbatim>\<open>stack_depth\<close> is how many calls of \<^verbatim>\<open>emit\<close> may be nested on it
  before the engine throws a \<^verbatim>\<open>RangeError\<close>.
\<close>

record externals =
  encode :: "envelope \<Rightarrow> jsstring \<Rightarrow> json option"
  decode :: "json \<Rightarrow> envelope option"
  JSON_parse :: "jsstring \<Rightarrow> json option"
  randomUUID :: "nat \<Rightarrow> jsstring"
  stack_depth :: nat

definition update_socket :: "world \<Rightarrow> nat \<Rightarrow> (CDPSocket \<Rightarrow> CDPSocket) \<Rightarrow> world" where
  "update_socket w sid f = w\<lparr>sockets := (sockets w)[sid := f (sockets w ! sid)]\<rparr>"

definition update_client :: "world \<Rightarrow> nat \<Rightarrow> (cdp_client \<Rightarrow> cdp_client) \<Rightarrow> world" where
  "update_client w c f = w\<lparr>clients := (clients w)[c := f (clients w ! c)]\<rparr>"

definition update_server :: "world \<Rightarrow> nat \<Rightarrow> (CDPSocketServer \<Rightarrow> CDPSocketServer) \<Rightarrow> world" where
  "update_server w r f = w\<lparr>servers := (servers w)[r := f (servers w ! r)]\<rparr>"

text \<open>\<^verbatim>\<open>cdpClient.send(method, params)\<close>: the command goes out; the promise resolves
  (\<^verbatim>\<open>True\<close>) or rejects.\<close>

definition client_send :: "world \<Rightarrow> nat \<Rightarrow> cdp_command \<Rightarrow> bool \<times> world" where
  "client_send w c cmd =
     (\<not> rejects (clients w ! c) cmd,
      update_client w c (\<lambda>cl. cl\<lparr>sent := sent cl @ [cmd]\<rparr>))"

section \<open>CDPSocket\<close>

definition bindingName :: "jsstring \<Rightarrow> jsstring" where
  "bindingName ns = lit ''cypressSendToServer-'' @ ns"

text \<open>The constructor: a socket on the client, with its handler subscribed.\<close>

definition CDPSocket_constructor :: "world \<Rightarrow> nat \<Rightarrow> jsstring \<Rightarrow> nat \<times> world" where
  "CDPSocket_constructor w c ns =
     (let sid = length (sockets w);
          w1 = w\<lparr>sockets := sockets w @
                 [\<lparr>cdpClient = Some c, namespace = ns, executionContextId = None,
                   listeners = []\<rparr>]\<rparr>
      in (sid, update_client w1 c (\<lambda>cl. cl\<lparr>handlers := client_on (handlers cl) sid\<rparr>)))"

text \<open>
  \<^verbatim>\<open>CDPSocket.init\<close>: the two commands in turn, then the constructor. A rejected command
  rejects \<^verbatim>\<open>init\<close> there and no socket is made. The two \<^verbatim>\<open>await\<close>s are taken in one
  step: what else may run between them is not part of this development.
\<close>

definition CDPSocket_init :: "world \<Rightarrow> nat \<Rightarrow> jsstring \<Rightarrow> nat option \<times> world" where
  "CDPSocket_init w c ns =
     (case client_send w c Runtime_enable of
        (ok1, w1) \<Rightarrow>
          if \<not> ok1 then (None, w1)
          else
            (case client_send w1 c (Runtime_addBinding (bindingName ns)) of
               (ok2, w2) \<Rightarrow>
                 if \<not> ok2 then (None, w2)
                 else (case CDPSocket_constructor w2 c ns of (sid, w3) \<Rightarrow> (Some sid, w3))))"

definition CDPSocket_join :: "world \<Rightarrow> nat \<Rightarrow> jsstring \<Rightarrow> world" where
  "CDPSocket_join w sid room = w"

text \<open>
  Adding a listener, as \<^verbatim>\<open>on\<close> and \<^verbatim>\<open>once\<close> of the event emitter do it. When the
  emitter already holds a listener for \<^verbatim>\<open>newListener\<close>, it first calls
  \<^verbatim>\<open>target.emit('newListener', type, listener)\<close>, and \<^verbatim>\<open>target.emit\<close> is whatever the
  object has under that name: on a socket, the \<^verbatim>\<open>emit\<close> field the class declares, not
  the emitter's own method. Only when that call returns is the listener put at the end of
  the list.
\<close>

definition has_listener :: "world \<Rightarrow> nat \<Rightarrow> event_name \<Rightarrow> bool" where
  "has_listener w sid ev = (ev \<in> set (map l_event (listeners (sockets w ! sid))))"

definition EventEmitter_addListener ::
  "(world \<Rightarrow> event_name \<Rightarrow> jsval list \<Rightarrow> bool completion \<times> world) \<Rightarrow>
   world \<Rightarrow> nat \<Rightarrow> event_name \<Rightarrow> callback \<Rightarrow> bool \<Rightarrow> unit completion \<times> world" where
  "EventEmitter_addListener this_emit w sid type f once =
     and_then
       (if has_listener w sid (Name (lit ''newListener''))
        then this_emit w (Name (lit ''newListener'')) [name_value type, Function f]
        else (Return True, w))
       (\<lambda>b w1. (Return (),
                 update_socket w1 sid
                   (\<lambda>s. s\<lparr>listeners := listeners s @
                             [\<lparr>l_event = type, l_fn = f, l_once = once\<rparr>]\<rparr>)))"

text \<open>
  \<^verbatim>\<open>emit\<close>, up to its \<^verbatim>\<open>return true\<close>: a uuid is drawn and the callback event named
  (a template literal, which throws a \<^verbatim>\<open>TypeError\<close> on a symbol), a trailing function is
  popped off the arguments and registered with \<^verbatim>\<open>once\<close> under the callback event, and
  \<^verbatim>\<open>encode\<close> is called on the envelope. With no arguments \<^verbatim>\<open>args[args.length - 1]\<close> is
  \<^verbatim>\<open>undefined\<close>, not a function. \<^verbatim>\<open>once\<close> may call \<^verbatim>\<open>emit\<close> again, one call deeper
  on the stack; the first argument is the room left on it.
\<close>

definition trailing_callback :: "jsval list \<Rightarrow> callback option" where
  "trailing_callback args =
     (case args of
        [] \<Rightarrow> None
      | _ # _ \<Rightarrow> (case last args of Function f \<Rightarrow> Some f | _ \<Rightarrow> None))"

primrec CDPSocket_emit_within ::
  "nat \<Rightarrow> externals \<Rightarrow> world \<Rightarrow> nat \<Rightarrow> event_name \<Rightarrow> jsval list \<Rightarrow> bool completion \<times> world" where
  "CDPSocket_emit_within 0 ext w sid event args = (Throw RangeError, w)"
| "CDPSocket_emit_within (Suc d) ext w sid event args =
     (let uuid = randomUUID ext (uuid_count w);
          w1 = w\<lparr>uuid_count := Suc (uuid_count w)\<rparr>
      in case event of
           SymbolName n \<Rightarrow> (Throw TypeError, w1)
         | Name ev \<Rightarrow>
             (let callbackEvent = ev @ lit ''-'' @ uuid;
                  callback = trailing_callback args;
                  args' = (case callback of Some f \<Rightarrow> butlast args | None \<Rightarrow> args)
              in and_then
                   (case callback of
                      Some f \<Rightarrow>
                        EventEmitter_addListener (\<lambda>w'. CDPSocket_emit_within d ext w' sid)
                          w1 sid (Name callbackEvent) f True
                    | None \<Rightarrow> (Return (), w1))
                   (\<lambda>u w2. (Return True,
                             w2\<lparr>pending := pending w2 @ [Encoding sid (ev, callbackEvent, args')]\<rparr>))))"

definition CDPSocket_emit ::
  "externals \<Rightarrow> world \<Rightarrow> nat \<Rightarrow> event_name \<Rightarrow> jsval list \<Rightarrow> bool completion \<times> world" where
  "CDPSocket_emit ext w sid event args =
     CDPSocket_emit_within (stack_depth ext) ext w sid event args"

text \<open>\<^verbatim>\<open>on\<close> and \<^verbatim>\<open>once\<close>, inherited from the event emitter and called on a socket.\<close>

definition CDPSocket_on ::
  "externals \<Rightarrow> world \<Rightarrow> nat \<Rightarrow> event_name \<Rightarrow> callback \<Rightarrow> unit completion \<times> world" where
  "CDPSocket_on ext w sid ev f =
     EventEmitter_addListener (\<lambda>w'. CDPSocket_emit ext w' sid) w sid ev f False"

definition CDPSocket_once ::
  "externals \<Rightarrow> world \<Rightarrow> nat \<Rightarrow> event_name \<Rightarrow> callback \<Rightarrow> unit completion \<times> world" where
  "CDPSocket_once ext w sid ev f =
     EventEmitter_addListener (\<lambda>w'. CDPSocket_emit ext w' sid) w sid ev f True"

text \<open>The script \<^verbatim>\<open>emit\<close> evaluates on the page, code unit for code unit.\<close>

definition window_socket :: "jsstring \<Rightarrow> jsstring" where
  "window_socket ns = lit ''window['' @ [quote] @ lit ''cypressSocket-'' @ ns @ [quote] @ lit '']''"

definition expression :: "jsstring \<Rightarrow> jsstring \<Rightarrow> jsstring" where
  "expression ns literal =
     [newline] @ lit ''        if ('' @ window_socket ns @ lit '' && '' @ window_socket ns
       @ lit ''.send) {'' @ [newline]
       @ lit ''          '' @ window_socket ns @ lit ''.send('' @ [quote] @ literal @ [quote]
       @ lit '')'' @ [newline] @ lit ''        }'' @ [newline] @ lit ''      ''"

text \<open>
  The \<^verbatim>\<open>then\<close> callback of \<^verbatim>\<open>emit\<close>, run with what \<^verbatim>\<open>encode\<close> resolved to: the script is
  built, and sent as \<^verbatim>\<open>Runtime.evaluate\<close> if the socket still holds its client, with the
  execution context the socket knows at that moment. \<^verbatim>\<open>catch(() => {})\<close> takes a
  rejection, so nothing of the outcome is kept.
\<close>

definition CDPSocket_emit_encoded :: "world \<Rightarrow> nat \<Rightarrow> json \<Rightarrow> world" where
  "CDPSocket_emit_encoded w sid encoded =
     (let s = sockets w ! sid;
          script = expression (namespace s) (escapePayload (JSON_stringify encoded))
      in case cdpClient s of
           None \<Rightarrow> w
         | Some c \<Rightarrow> snd (client_send w c (Runtime_evaluate script (executionContextId s))))"

definition CDPSocket_connected :: "world \<Rightarrow> nat \<Rightarrow> bool" where
  "CDPSocket_connected w sid = (cdpClient (sockets w ! sid) \<noteq> None)"

definition CDPSocket_close :: "world \<Rightarrow> nat \<Rightarrow> world" where
  "CDPSocket_close w sid =
     (let w1 = (case cdpClient (sockets w ! sid) of
                  None \<Rightarrow> w
                | Some c \<Rightarrow> update_client w c (\<lambda>cl. cl\<lparr>handlers := client_off (handlers cl) sid\<rparr>))
      in update_socket w1 sid (\<lambda>s. s\<lparr>cdpClient := None\<rparr>))"

definition CDPSocket_disconnect :: "world \<Rightarrow> nat \<Rightarrow> world" where
  "CDPSocket_disconnect w sid = CDPSocket_close w sid"

text \<open>
  \<^verbatim>\<open>processCDPRuntimeBinding\<close>, up to the call of \<^verbatim>\<open>decode\<close>: a notification under
  another name returns at once; otherwise the execution context is recorded and the payload
  parsed (a syntax error rejects the handler's promise, which nobody awaits).
\<close>

definition CDPSocket_processCDPRuntimeBinding ::
  "externals \<Rightarrow> world \<Rightarrow> nat \<Rightarrow> bindingCalledEvent \<Rightarrow> world" where
  "CDPSocket_processCDPRuntimeBinding ext w sid ev =
     (if bc_name ev \<noteq> bindingName (namespace (sockets w ! sid)) then w
      else
        (let w1 = update_socket w sid
                    (\<lambda>s. s\<lparr>executionContextId := Some (bc_executionContextId ev)\<rparr>)
         in case JSON_parse ext (bc_payload ev) of
              None \<Rightarrow> w1\<lparr>unhandled := unhandled w1 @ [JSONSyntaxError]\<rparr>
            | Some data \<Rightarrow> w1\<lparr>pending := pending w1 @ [Decoding sid data]\<rparr>))"

text \<open>
  A call of a function: one of the calling code's is recorded, and taken to return; the
  acknowledgement callback
  \<^verbatim>\<open>(...callbackArgs) => { this.emit(callbackEvent, ...callbackArgs) }\<close> runs \<^verbatim>\<open>emit\<close> on
  its socket.
\<close>

definition invoke ::
  "externals \<Rightarrow> world \<Rightarrow> callback \<Rightarrow> jsval list \<Rightarrow> unit completion \<times> world" where
  "invoke ext w f args =
     (case f of
        UserFn n \<Rightarrow> (Return (), w\<lparr>calls := calls w @ [(n, args)]\<rparr>)
      | AckFn sid callbackEvent \<Rightarrow>
          and_then (CDPSocket_emit ext w sid (Name callbackEvent) args)
            (\<lambda>b w1. (Return (), w1)))"

text \<open>
  The wrapper that \<^verbatim>\<open>once\<close> registers takes itself off the list and then calls the
  listener. Taking a listener off the list is the emitter's \<^verbatim>\<open>removeListener\<close>: when a
  listener for \<^verbatim>\<open>removeListener\<close> is still registered afterwards, it calls
  \<^verbatim>\<open>this.emit('removeListener', type, listener)\<close>, which on a socket is again the
  \<^verbatim>\<open>emit\<close> field of the class.
\<close>

definition EventEmitter_removeListener ::
  "(world \<Rightarrow> event_name \<Rightarrow> jsval list \<Rightarrow> bool completion \<times> world) \<Rightarrow>
   world \<Rightarrow> nat \<Rightarrow> listener \<Rightarrow> unit completion \<times> world" where
  "EventEmitter_removeListener this_emit w sid l =
     (let w1 = update_socket w sid (\<lambda>s. s\<lparr>listeners := remove1 l (listeners s)\<rparr>)
      in if has_listener w1 sid (Name (lit ''removeListener''))
         then and_then
                (this_emit w1 (Name (lit ''removeListener'')) [name_value (l_event l), Function (l_fn l)])
                (\<lambda>b w2. (Return (), w2))
         else (Return (), w1))"

definition call_listener ::
  "externals \<Rightarrow> nat \<Rightarrow> jsval list \<Rightarrow> world \<Rightarrow> listener \<Rightarrow> unit completion \<times> world" where
  "call_listener ext sid args w l =
     and_then
       (if l_once l
        then EventEmitter_removeListener (\<lambda>w'. CDPSocket_emit ext w' sid) w sid l
        else (Return (), w))
       (\<lambda>u w1. invoke ext w1 (l_fn l) args)"

primrec call_listeners ::
  "externals \<Rightarrow> nat \<Rightarrow> jsval list \<Rightarrow> world \<Rightarrow> listener list \<Rightarrow> unit completion \<times> world" where
  "call_listeners ext sid args w [] = (Return (), w)"
| "call_listeners ext sid args w (l # ls) =
     and_then (call_listener ext sid args w l) (\<lambda>u w1. call_listeners ext sid args w1 ls)"

text \<open>
  \<^verbatim>\<open>super.emit(event, ...args)\<close> on a socket, the event emitter's own \<^verbatim>\<open>emit\<close>. For the
  event \<^verbatim>\<open>error\<close> it first calls \<^verbatim>\<open>this.emit(errorMonitor, ...args)\<close> when a listener
  for that symbol is registered, and throws when no listener for \<^verbatim>\<open>error\<close> is. Then the
  listeners registered for the event at that moment are called in order, until one throws;
  the result is whether there was one.
\<close>

definition CDPSocket_super_emit ::
  "externals \<Rightarrow> world \<Rightarrow> nat \<Rightarrow> jsstring \<Rightarrow> jsval list \<Rightarrow> bool completion \<times> world" where
  "CDPSocket_super_emit ext w sid event args =
     and_then
       (if event = lit ''error'' \<and> has_listener w sid errorMonitor
        then CDPSocket_emit ext w sid errorMonitor args
        else (Return True, w))
       (\<lambda>b w1.
          (let hs = filter (\<lambda>l. l_event l = Name event) (listeners (sockets w1 ! sid))
           in if hs = [] then
                (if event = lit ''error'' then (Throw UnhandledErrorEvent, w1)
                 else (Return False, w1))
              else and_then (call_listeners ext sid args w1 hs) (\<lambda>u w2. (Return True, w2))))"

text \<open>
  The \<^verbatim>\<open>then\<close> callback of \<^verbatim>\<open>processCDPRuntimeBinding\<close>, run with the decoded envelope:
  the event is dispatched to the socket's listeners with the acknowledgement callback
  appended to its arguments. What the dispatch throws rejects a promise nobody handles.
\<close>

definition CDPSocket_processCDPRuntimeBinding_decoded ::
  "externals \<Rightarrow> world \<Rightarrow> nat \<Rightarrow> envelope \<Rightarrow> world" where
  "CDPSocket_processCDPRuntimeBinding_decoded ext w sid decoded =
     (case decoded of
        (event, callbackEvent, args) \<Rightarrow>
          (case CDPSocket_super_emit ext w sid event (args @ [Function (AckFn sid callbackEvent)]) of
             (Return b, w1) \<Rightarrow> w1
           | (Throw e, w1) \<Rightarrow> w1\<lparr>unhandled := unhandled w1 @ [e]\<rparr>))"

text \<open>
  The environment settles the \<open>i\<close>-th pending promise: it leaves \<^verbatim>\<open>pending\<close>, and its
  \<^verbatim>\<open>then\<close> callback runs if the codec resolved; a rejection has no handler.
\<close>

definition settle :: "externals \<Rightarrow> world \<Rightarrow> nat \<Rightarrow> world" where
  "settle ext w i =
     (if i \<ge> length (pending w) then w
      else
        (let w1 = w\<lparr>pending := take i (pending w) @ drop (Suc i) (pending w)\<rparr>
         in case pending w ! i of
              Encoding sid env \<Rightarrow>
                (case encode ext env (namespace (sockets w ! sid)) of
                   None \<Rightarrow> w1\<lparr>unhandled := unhandled w1 @ [EncodeRejected]\<rparr>
                 | Some encoded \<Rightarrow> CDPSocket_emit_encoded w1 sid encoded)
            | Decoding sid data \<Rightarrow>
                (case decode ext data of
                   None \<Rightarrow> w1\<lparr>unhandled := unhandled w1 @ [DecodeRejected]\<rparr>
                 | Some decoded \<Rightarrow> CDPSocket_processCDPRuntimeBinding_decoded ext w1 sid decoded)))"

text \<open>
  The remote client emits a binding-invocation notification: every handler subscribed at
  that moment is called with it, in subscription order.
\<close>

definition client_notify :: "externals \<Rightarrow> world \<Rightarrow> nat \<Rightarrow> bindingCalledEvent \<Rightarrow> world" where
  "client_notify ext w c ev =
     foldl (\<lambda>w sid. CDPSocket_processCDPRuntimeBinding ext w sid ev) w (handlers (clients w ! c))"

section \<open>CDPSocketServer\<close>

text \<open>
  Of the registry, the constructor, \<^verbatim>\<open>emit\<close>, \<^verbatim>\<open>of\<close> and \<^verbatim>\<open>to\<close>, and further
  down the first statement of \<^verbatim>\<open>attachCDPClient\<close>, which gives a node its socket.
  \<^verbatim>\<open>close\<close> and \<^verbatim>\<open>disconnectSockets\<close>, which take the socket away again, are not
  part of this development.

  The constructor \<^verbatim>\<open>constructor ({ path = '', namespace = '/default' } = {})\<close>; an
  option left out is \<^verbatim>\<open>None\<close>.
\<close>

definition CDPSocketServer_constructor ::
  "world \<Rightarrow> jsstring option \<Rightarrow> jsstring option \<Rightarrow> nat \<times> world" where
  "CDPSocketServer_constructor w path_opt namespace_opt =
     (let p = (case path_opt of None \<Rightarrow> [] | Some p \<Rightarrow> p);
          ns = (case namespace_opt of None \<Rightarrow> lit ''/default'' | Some ns \<Rightarrow> ns)
      in (length (servers w),
          w\<lparr>servers := servers w @
              [\<lparr>cdpSocket = None, fullNamespace = p @ ns, path = p, namespaceMap = [],
                server_listeners = []\<rparr>]\<rparr>))"

text \<open>\<^verbatim>\<open>emit\<close> of the registry: the call is handed to the node's socket, if it has one.\<close>

definition CDPSocketServer_emit ::
  "externals \<Rightarrow> world \<Rightarrow> nat \<Rightarrow> jsstring \<Rightarrow> jsval list \<Rightarrow> bool completion \<times> world" where
  "CDPSocketServer_emit ext w r event args =
     (case cdpSocket (servers w ! r) of
        None \<Rightarrow> (Return True, w)
      | Some sid \<Rightarrow>
          and_then (CDPSocket_emit ext w sid (Name event) args) (\<lambda>b w1. (Return True, w1)))"

text \<open>
  \<^verbatim>\<open>_namespaceMap\<close> is a plain object (\<^verbatim>\<open>= {}\<close>), and \<^verbatim>\<open>this._namespaceMap[key]\<close> reads a
  property: one of its own (a child put there by \<^verbatim>\<open>of\<close>), or, failing that, one it
  inherits from \<^verbatim>\<open>Object.prototype\<close>. Every inherited value is truthy.
\<close>

definition Object_prototype_properties :: "jsstring list" where
  "Object_prototype_properties =
     map lit
       [''constructor'', ''__defineGetter__'', ''__defineSetter__'', ''hasOwnProperty'',
        ''__lookupGetter__'', ''__lookupSetter__'', ''isPrototypeOf'', ''propertyIsEnumerable'',
        ''toString'', ''valueOf'', ''__proto__'', ''toLocaleString'']"

datatype property =
    Own nat
  | Inherited jsstring
  | Missing

definition get_property :: "(jsstring \<times> nat) list \<Rightarrow> jsstring \<Rightarrow> property" where
  "get_property m key =
     (case map_of m key of
        Some child \<Rightarrow> Own child
      | None \<Rightarrow> if key \<in> set Object_prototype_properties then Inherited key else Missing)"

text \<open>What \<^verbatim>\<open>of\<close> returns: a server, or the inherited property it found in the way.\<close>

datatype of_result =
    Server nat
  | PrototypeProperty jsstring

definition CDPSocketServer_of :: "world \<Rightarrow> nat \<Rightarrow> jsstring \<Rightarrow> of_result \<times> world" where
  "CDPSocketServer_of w r ns =
     (let this = servers w ! r;
          key = path this @ ns
      in case get_property (namespaceMap this) key of
           Own child \<Rightarrow> (Server child, w)
         | Inherited p \<Rightarrow> (PrototypeProperty p, w)
         | Missing \<Rightarrow>
             (case CDPSocketServer_constructor w (Some (path this)) (Some ns) of
                (child, w1) \<Rightarrow>
                  (Server child,
                   update_server w1 r (\<lambda>s. s\<lparr>namespaceMap := namespaceMap s @ [(key, child)]\<rparr>))))"

definition CDPSocketServer_to :: "world \<Rightarrow> nat \<Rightarrow> jsstring \<Rightarrow> nat" where
  "CDPSocketServer_to w r room = r"

section \<open>Registry nodes reached through \<^verbatim>\<open>of\<close>\<close>

text \<open>
  Only the constructor and \<^verbatim>\<open>of\<close> write \<^verbatim>\<open>_path\<close>, \<^verbatim>\<open>_fullNamespace\<close> and
  \<^verbatim>\<open>_namespaceMap\<close>, so in every world the program can reach each entry of a node's map
  points at a server that exists, whose full namespace is the entry's key and whose path is
  the node's, and no key is the name of a property of \<^verbatim>\<open>Object.prototype\<close> (an entry is
  only made when the lookup found nothing).
\<close>

definition registry_ok :: "world \<Rightarrow> bool" where
  "registry_ok w =
     list_all (\<lambda>s. list_all (\<lambda>kc. snd kc < length (servers w)
                                 \<and> fullNamespace (servers w ! snd kc) = fst kc
                                 \<and> path (servers w ! snd kc) = path s
                                 \<and> fst kc \<notin> set Object_prototype_properties)
                     (namespaceMap s))
       (servers w)"

text \<open>
  \<^verbatim>\<open>r.of(a)._fullNamespace\<close> and \<^verbatim>\<open>r.of(a).of(b)._fullNamespace\<close>. There is no such
  string when a call of \<^verbatim>\<open>of\<close> on the way returns an inherited property instead of
  a server: none of those properties has an \<^verbatim>\<open>of\<close> or a \<^verbatim>\<open>_fullNamespace\<close>, and the
  call on it throws a \<^verbatim>\<open>TypeError\<close>.
\<close>

definition child_namespace :: "world \<Rightarrow> nat \<Rightarrow> jsstring \<Rightarrow> jsstring option" where
  "child_namespace w r a =
     (case CDPSocketServer_of w r a of
        (Server x, w1) \<Rightarrow> Some (fullNamespace (servers w1 ! x))
      | (PrototypeProperty p, w1) \<Rightarrow> None)"

definition nested_namespace :: "world \<Rightarrow> nat \<Rightarrow> jsstring \<Rightarrow> jsstring \<Rightarrow> jsstring option" where
  "nested_namespace w r a b =
     (case CDPSocketServer_of w r a of
        (Server x, w1) \<Rightarrow> child_namespace w1 x b
      | (PrototypeProperty p, w1) \<Rightarrow> None)"

text \<open>
  The first statement of \<^verbatim>\<open>attachCDPClient\<close>,
  \<^verbatim>\<open>this._cdpSocket = await CDPSocket.init(cdpClient, this._fullNamespace)\<close>: the node's
  socket is made for the node's full namespace, which is where the node's binding name is
  registered. When \<^verbatim>\<open>init\<close> rejects, so does \<^verbatim>\<open>attachCDPClient\<close>, and nothing is
  assigned. The statements after it (the same call on every child, and the
  \<^verbatim>\<open>connection\<close> event) are not part of this development.
\<close>

definition CDPSocketServer_attachCDPClient_init ::
  "world \<Rightarrow> nat \<Rightarrow> nat \<Rightarrow> nat option \<times> world" where
  "CDPSocketServer_attachCDPClient_init w r c =
     (case CDPSocket_init w c (fullNamespace (servers w ! r)) of
        (None, w1) \<Rightarrow> (None, w1)
      | (Some sid, w1) \<Rightarrow> (Some sid, update_server w1 r (\<lambda>s. s\<lparr>cdpSocket := Some sid\<rparr>)))"

text \<open>Worlds to run the program in: nothing yet; one registry made with a path; one made
  with no options at all.\<close>

definition empty_world :: world where
  "empty_world = \<lparr>servers = [], sockets = [], clients = [], pending = [], uuid_count = 0,
                   calls = [], unhandled = []\<rparr>"

definition registry_world :: world where
  "registry_world = snd (CDPSocketServer_constructor empty_world (Some (lit ''/__socket'')) None)"

definition default_registry_world :: world where
  "default_registry_world = snd (CDPSocketServer_constructor empty_world None None)"

section \<open>The injected script around its payload\<close>

text \<open>
  The script of \<^verbatim>\<open>emit\<close> in two pieces: everything up to and including the quote that
  opens the payload's string literal, and everything after the quote that closes it.
\<close>

definition script_before_literal :: "jsstring \<Rightarrow> jsstring" where
  "script_before_literal ns =
     [newline] @ lit ''        if ('' @ window_socket ns @ lit '' && '' @ window_socket ns
       @ lit ''.send) {'' @ [newline]
       @ lit ''          '' @ window_socket ns @ lit ''.send('' @ [quote]"

definition script_after_literal :: jsstring where
  "script_after_literal = lit '')'' @ [newline] @ lit ''        }'' @ [newline] @ lit ''      ''"

section \<open>Observing a bridge\<close>

text \<open>
  The promises in flight that belong to one socket. A local dispatch on a socket only ever
  happens when one of its \<^verbatim>\<open>Decoding\<close> promises settles.
\<close>

fun promise_socket :: "pending_promise \<Rightarrow> nat" where
  "promise_socket (Encoding sid env) = sid"
| "promise_socket (Decoding sid data) = sid"

definition pending_of :: "world \<Rightarrow> nat \<Rightarrow> pending_promise list" where
  "pending_of w sid = filter (\<lambda>p. promise_socket p = sid) (pending w)"

text \<open>
  Every socket is subscribed at most once, and only on the client it holds: the constructor
  is the one place that subscribes, and it subscribes the new socket's own handler.
\<close>

definition subscribed_once :: "world \<Rightarrow> nat \<Rightarrow> bool" where
  "subscribed_once w sid =
     list_all (\<lambda>c. count_list (handlers (clients w ! c)) sid
                      \<le> (if cdpClient (sockets w ! sid) = Some c then 1 else 0))
       [0 ..< length (clients w)]"

section \<open>A codec and worlds to run the bridge in\<close>

text \<open>
  A stand-in for the codec of \<^verbatim>\<open>./utils\<close>: the envelope as a JSON array, an argument that
  is not JSON data written as \<^verbatim>\<open>null\<close>; a parser that knows the texts of the listed
  values; uuids \<^verbatim>\<open>uuid0\<close>, \<^verbatim>\<open>uuid1\<close>, and so on; a stack with room for ten thousand
  nested calls. The numbers 1 and 2 are the doubles with the digit 1 or 2 and one digit
  before the point.
\<close>

fun data_of :: "jsval \<Rightarrow> json" where
  "data_of (Data j) = j"
| "data_of (Function f) = JNull"
| "data_of (Symbol n) = JNull"

definition test_encode :: "envelope \<Rightarrow> jsstring \<Rightarrow> json option" where
  "test_encode env ns =
     (case env of (event, callbackEvent, args) \<Rightarrow>
        Some (JArr [JStr event, JStr callbackEvent, JArr (map data_of args)]))"

fun test_decode :: "json \<Rightarrow> envelope option" where
  "test_decode (JArr [JStr event, JStr callbackEvent, JArr xs]) =
     Some (event, callbackEvent, map Data xs)"
| "test_decode data = None"

definition parse_among :: "json list \<Rightarrow> jsstring \<Rightarrow> json option" where
  "parse_among vs s = find (\<lambda>v. JSON_stringify v = s) vs"

definition number_1 :: json where
  "number_1 = JNum (Finite False 1 1)"

definition number_2 :: json where
  "number_2 = JNum (Finite False 2 1)"

definition ping_packet :: json where
  "ping_packet = JArr [JStr (lit ''ping''), JStr (lit ''ping-uuid0''), JArr [number_1, number_2]]"

definition greet_packet :: json where
  "greet_packet =
     JArr [JStr (lit ''greet''), JStr (lit ''greet-ackid123''), JArr [JStr (lit ''hi'')]]"

definition ack_packet :: json where
  "ack_packet =
     JArr [JStr (lit ''ping-uuid0''), JStr (lit ''ping-uuid0-ackid456''), JArr [JStr (lit ''ok'')]]"

definition error_packet :: json where
  "error_packet =
     JArr [JStr (lit ''error''), JStr (lit ''error-ackid789''), JArr [JStr (lit ''boom'')]]"

definition test_externals :: externals where
  "test_externals =
     \<lparr>encode = test_encode, decode = test_decode,
      JSON_parse = parse_among [ping_packet, greet_packet, ack_packet, error_packet],
      randomUUID = (\<lambda>n. lit ''uuid'' @ digits n),
      stack_depth = 10000\<rparr>"

text \<open>One client that accepts every command, and two sockets made on it by
  \<^verbatim>\<open>CDPSocket.init\<close>, for the namespaces \<^verbatim>\<open>/a\<close> and \<^verbatim>\<open>/b\<close>.\<close>

definition client_world :: world where
  "client_world = empty_world\<lparr>clients := [\<lparr>handlers = [], sent = [], rejects = (\<lambda>cmd. False)\<rparr>]\<rparr>"

definition bridge_world :: world where
  "bridge_world =
     snd (CDPSocket_init (snd (CDPSocket_init client_world 0 (lit ''/a''))) 0 (lit ''/b''))"

definition invocation_for_a :: bindingCalledEvent where
  "invocation_for_a =
     \<lparr>bc_name = lit ''cypressSendToServer-/a'', bc_payload = JSON_stringify greet_packet,
      bc_executionContextId = 4\<rparr>"

text \<open>A registry made with no options, a client that rejects every \<^verbatim>\<open>Runtime.evaluate\<close>
  attached to it, and \<^verbatim>\<open>emit("ping", 1, 2)\<close> called on the registry.\<close>

definition rejecting_client :: cdp_client where
  "rejecting_client =
     \<lparr>handlers = [], sent = [],
      rejects = (\<lambda>cmd. case cmd of Runtime_evaluate script ctx \<Rightarrow> True | _ \<Rightarrow> False)\<rparr>"

definition attached_world :: world where
  "attached_world =
     snd (CDPSocketServer_attachCDPClient_init
            (default_registry_world\<lparr>clients := [rejecting_client]\<rparr>) 0 0)"

definition rejecting_world :: world where
  "rejecting_world =
     snd (CDPSocketServer_emit test_externals attached_world 0 (lit ''ping'')
            [Data number_1, Data number_2])"

text \<open>
  The same registry after the calling code has registered a listener of its own (number 9)
  for the emitter's \<^verbatim>\<open>newListener\<close> event on the registry's socket, and the first
  socket of the two above after the same.
\<close>

definition announcing_registry :: world where
  "announcing_registry =
     snd (CDPSocket_on test_externals attached_world 0 (Name (lit ''newListener'')) (UserFn 9))"

definition announcing_world :: world where
  "announcing_world =
     snd (CDPSocket_on test_externals bridge_world 0 (Name (lit ''newListener'')) (UserFn 9))"

text \<open>
  The acknowledgement round trip on the socket for \<^verbatim>\<open>/a\<close>: the server calls
  \<^verbatim>\<open>emit("ping", 1, fn)\<close> with a function \<^verbatim>\<open>fn\<close> of its own (number 7); the page
  answers by invoking the binding with the acknowledgement \<^verbatim>\<open>ok\<close> for the id
  \<^verbatim>\<open>ping-uuid0\<close>; the client delivers the notification; the promise of \<^verbatim>\<open>decode\<close>
  resolves.
\<close>

definition ack_invocation :: bindingCalledEvent where
  "ack_invocation =
     \<lparr>bc_name = lit ''cypressSendToServer-/a'', bc_payload = JSON_stringify ack_packet,
      bc_executionContextId = 4\<rparr>"

definition ping_emitted :: world where
  "ping_emitted =
     snd (CDPSocket_emit test_externals bridge_world 0 (Name (lit ''ping''))
            [Data number_1, Function (UserFn 7)])"

definition ack_delivered :: world where
  "ack_delivered = client_notify test_externals ping_emitted 0 ack_invocation"

definition ack_world :: world where
  "ack_world = settle test_externals ack_delivered 1"

text \<open>
  The same round trip on a socket where the calling code first registered a listener of its
  own (number 8) for the emitter's \<^verbatim>\<open>removeListener\<close> event.
\<close>

definition watching_world :: world where
  "watching_world =
     snd (CDPSocket_on test_externals bridge_world 0 (Name (lit ''removeListener'')) (UserFn 8))"

definition watched_ack_world :: world where
  "watched_ack_world =
     settle test_externals
       (client_notify test_externals
          (snd (CDPSocket_emit test_externals watching_world 0 (Name (lit ''ping''))
                  [Data number_1, Function (UserFn 7)]))
          0 ack_invocation)
       1"

text \<open>A socket with a listener of the calling code registered by \<^verbatim>\<open>on\<close>.\<close>

definition listening_world :: world where
  "listening_world =
     snd (CDPSocket_on test_externals bridge_world 0 (Name (lit ''greet'')) (UserFn 5))"







text \<open>Every subscribed handler belongs to a socket that exists.\<close>

definition handlers_ok :: "world \<Rightarrow> bool" where
  "handlers_ok w =
     list_all (\<lambda>cl. list_all (\<lambda>h. h < length (sockets w)) (handlers cl)) (clients w)"

section \<open>The worlds the program reaches\<close>

text \<open>
  A sound world: a sound registry, subscriptions that belong to sockets that exist, and
  every socket subscribed the way its constructor subscribes it.
\<close>

definition world_ok :: "world \<Rightarrow> bool" where
  "world_ok w =
     (registry_ok w \<and> handlers_ok w
      \<and> list_all (subscribed_once w) [0 ..< length (sockets w)])"

text \<open>
  Two worlds with the same subscriptions, the same clients held by the sockets and the same
  servers. Most steps of the program go from a world to one of the same shape.
\<close>

definition same_shape :: "world \<Rightarrow> world \<Rightarrow> bool" where
  "same_shape w w' =
     (map handlers (clients w') = map handlers (clients w)
      \<and> map cdpClient (sockets w') = map cdpClient (sockets w)
      \<and> servers w' = servers w)"

text \<open>
  The worlds the program can be in. From nothing, clients appear and change what they
  reject; the calling code makes registries and calls \<^verbatim>\<open>of\<close> and \<^verbatim>\<open>emit\<close> on them and
  attaches clients to them; sockets are made by \<^verbatim>\<open>init\<close>, emitted on, listened on and
  closed, and their listeners changed in any way (\<^verbatim>\<open>off\<close>, \<^verbatim>\<open>removeAllListeners\<close> and
  the like); a client delivers a notification; a promise settles; the calling code calls a
  function it holds. A step that throws leaves the world it had reached. The rest of the
  registry's \<^verbatim>\<open>attachCDPClient\<close>, and its \<^verbatim>\<open>close\<close> and \<^verbatim>\<open>disconnectSockets\<close>, act
  through these steps and through assignments to a node's \<^verbatim>\<open>_cdpSocket\<close> and listeners,
  which the rule \<open>server_fields\<close> allows freely.
\<close>

inductive reachable :: "externals \<Rightarrow> world \<Rightarrow> bool" for ext :: externals where
  start: "reachable ext empty_world"
| new_client:
    "reachable ext w \<Longrightarrow>
     reachable ext (w\<lparr>clients := clients w @ [\<lparr>handlers = [], sent = [], rejects = rj\<rparr>]\<rparr>)"
| client_changes:
    "reachable ext w \<Longrightarrow> reachable ext (update_client w c (\<lambda>cl. cl\<lparr>rejects := rj\<rparr>))"
| new_server:
    "reachable ext w \<Longrightarrow> reachable ext (snd (CDPSocketServer_constructor w path_opt namespace_opt))"
| server_of:
    "reachable ext w \<Longrightarrow> r < length (servers w) \<Longrightarrow> reachable ext (snd (CDPSocketServer_of w r ns))"
| server_emit:
    "reachable ext w \<Longrightarrow> reachable ext (snd (CDPSocketServer_emit ext w r event args))"
| server_attach:
    "reachable ext w \<Longrightarrow> c < length (clients w) \<Longrightarrow>
     reachable ext (snd (CDPSocketServer_attachCDPClient_init w r c))"
| server_fields:
    "reachable ext w \<Longrightarrow>
     reachable ext (update_server w r (\<lambda>s. s\<lparr>cdpSocket := sock, server_listeners := ls\<rparr>))"
| socket_init:
    "reachable ext w \<Longrightarrow> c < length (clients w) \<Longrightarrow> reachable ext (snd (CDPSocket_init w c ns))"
| socket_emit:
    "reachable ext w \<Longrightarrow> reachable ext (snd (CDPSocket_emit ext w sid event args))"
| socket_on:
    "reachable ext w \<Longrightarrow> reachable ext (snd (CDPSocket_on ext w sid event f))"
| socket_once:
    "reachable ext w \<Longrightarrow> reachable ext (snd (CDPSocket_once ext w sid event f))"
| socket_listeners:
    "reachable ext w \<Longrightarrow> reachable ext (update_socket w sid (\<lambda>s. s\<lparr>listeners := ls\<rparr>))"
| socket_close:
    "reachable ext w \<Longrightarrow> sid < length (sockets w) \<Longrightarrow> reachable ext (CDPSocket_close w sid)"
| notified:
    "reachable ext w \<Longrightarrow> reachable ext (client_notify ext w c ev)"
| settled:
    "reachable ext w \<Longrightarrow> reachable ext (settle ext w i)"
| called:
    "reachable ext w \<Longrightarrow> reachable ext (snd (invoke ext w f args))"

section \<open>Properties\<close>

subsection \<open>Literals\<close>

lemma unat_of_char: "unat (of_char c :: code_unit) = of_char c"
proof -
  have "(of_char c :: nat) < 256"
    by (metis of_char_mod_256 mod_less_divisor zero_less_numeral)
  moreover have "(256::nat) \<le> 2 ^ 16" by simp
  ultimately have "(of_char c :: nat) < 2 ^ 16" by (rule less_le_trans)
  moreover have "(of_char c :: code_unit) = of_nat (of_char c)"
    by (simp add: of_nat_of_char)
  ultimately show ?thesis
    by (simp add: unat_of_nat)
qed

lemma inj_of_char_code_unit: "inj (of_char :: char \<Rightarrow> code_unit)"
proof (rule injI)
  fix c d :: char
  assume "(of_char c :: code_unit) = of_char d"
  then have "unat (of_char c :: code_unit) = unat (of_char d :: code_unit)" by simp
  then show "c = d" by (simp add: unat_of_char)
qed

lemma lit_eq_iff [simp]: "lit a = lit b \<longleftrightarrow> a = b"
  unfolding lit_def by (rule inj_map_eq_map [OF inj_of_char_code_unit])

lemma lit_Nil [simp]: "lit [] = []"
  by (simp add: lit_def)

lemma lit_eq_Nil [simp]: "lit a = [] \<longleftrightarrow> a = []"
  by (simp add: lit_def)

lemma lit_append: "lit (a @ b) = lit a @ lit b"
  by (simp add: lit_def)

lemma lit_append_eq [simp]: "lit a @ x = lit a @ y \<longleftrightarrow> x = y"
  by simp

subsection \<open>Escaping the payload\<close>

lemma special_chars_distinct:
  "backslash \<noteq> quote" "quote \<noteq> backslash"
  "backslash \<noteq> newline" "backslash \<noteq> creturn"
  "quote \<noteq> newline" "quote \<noteq> creturn"
  "dquote \<noteq> quote" "dquote \<noteq> backslash" "dquote \<noteq> newline" "dquote \<noteq> creturn"
  by (simp_all add: backslash_def quote_def newline_def creturn_def dquote_def)

lemma replaceAll_append:
  "replaceAll (xs @ ys) c rep = replaceAll xs c rep @ replaceAll ys c rep"
  by (induction xs) simp_all

lemma replaceAll_concat_map:
  "replaceAll s c rep = concat (map (\<lambda>x. if x = c then rep else [x]) s)"
  by (induction s) simp_all

lemma escapePayload_Nil: "escapePayload [] = []"
  by (simp add: escapePayload_def)

lemma escapePayload_Cons:
  "escapePayload (c # s) =
     (if c = backslash then [backslash, backslash]
      else if c = quote then [backslash, quote] else [c]) @ escapePayload s"
  by (simp add: escapePayload_def replaceAll_append special_chars_distinct)


lemma readSingleQuoted_plain:
  assumes "c \<noteq> quote" "c \<noteq> newline" "c \<noteq> creturn" "c \<noteq> backslash" "xs \<noteq> []"
  shows "readSingleQuoted (c # xs) =
     (case readSingleQuoted xs of
        None \<Rightarrow> None
      | Some (s, rest) \<Rightarrow> Some (c # s, rest))"
  using assms by (cases xs) simp_all

lemma SingleEscapeCharacter_backslash: "SingleEscapeCharacter backslash = Some [backslash]"
  by (simp add: SingleEscapeCharacter_def backslash_def newline_def creturn_def lit_def)

lemma SingleEscapeCharacter_quote: "SingleEscapeCharacter quote = Some [quote]"
  by (simp add: SingleEscapeCharacter_def quote_def newline_def creturn_def lit_def)

lemma readSingleQuoted_escapePayload:
  assumes "newline \<notin> set s" and "creturn \<notin> set s"
  shows "readSingleQuoted (escapePayload s @ quote # rest) = Some (s, rest)"
  using assms
proof (induction s)
  case Nil
  show ?case by (cases rest) (simp_all add: escapePayload_Nil)
next
  case (Cons c s)
  then have IH: "readSingleQuoted (escapePayload s @ quote # rest) = Some (s, rest)"
    and c: "c \<noteq> newline" "c \<noteq> creturn" by auto
  have ne: "escapePayload s @ quote # rest \<noteq> []" by simp
  show ?case
  proof (cases "c = backslash")
    case True
    then show ?thesis
      using IH by (simp add: escapePayload_Cons SingleEscapeCharacter_backslash
          special_chars_distinct)
  next
    case nb: False
    show ?thesis
    proof (cases "c = quote")
      case True
      then show ?thesis
        using IH by (simp add: escapePayload_Cons SingleEscapeCharacter_quote
            special_chars_distinct)
    next
      case False
      with nb c IH show ?thesis
        by (simp add: escapePayload_Cons readSingleQuoted_plain [OF _ _ _ _ ne])
    qed
  qed
qed

subsection \<open>\<^verbatim>\<open>JSON.stringify\<close> writes no line terminator\<close>

lemma terminator_free_Nil [simp]: "terminator_free []"
  by (simp add: terminator_free_def)

lemma terminator_free_append [simp]:
  "terminator_free (a @ b) \<longleftrightarrow> terminator_free a \<and> terminator_free b"
  by (auto simp: terminator_free_def)

lemma terminator_free_Cons:
  "terminator_free (c # s) \<longleftrightarrow> c \<noteq> newline \<and> c \<noteq> creturn \<and> terminator_free s"
  by (auto simp: terminator_free_def)

lemma terminator_free_subset:
  "terminator_free b \<Longrightarrow> set a \<subseteq> set b \<Longrightarrow> terminator_free a"
  by (auto simp: terminator_free_def)

lemma terminator_free_lit:
  assumes "CHR 0x0A \<notin> set s" and "CHR 0x0D \<notin> set s"
  shows "terminator_free (lit s)"
proof -
  have n: "newline = of_char (CHR 0x0A)" and r: "creturn = of_char (CHR 0x0D)"
    by (simp_all add: newline_def creturn_def)
  show ?thesis
    unfolding terminator_free_def lit_def set_map n r
    by (simp only: inj_image_mem_iff [OF inj_of_char_code_unit] assms not_False_eq_True simp_thms)
qed

lemma join_terminator_free:
  assumes "\<And>x. x \<in> set xs \<Longrightarrow> terminator_free x" and "terminator_free sep"
  shows "terminator_free (join xs sep)"
  using assms by (induction xs) auto

lemma hexdigit_terminator_free: "hexdigit n \<noteq> newline \<and> hexdigit n \<noteq> creturn"
proof -
  have "hexdigit n \<in> set (lit ''0123456789abcdef'')"
    unfolding hexdigit_def by (rule nth_mem) (simp add: lit_def)
  moreover have "terminator_free (lit ''0123456789abcdef'')"
    by (rule terminator_free_lit) simp_all
  ultimately show ?thesis
    by (auto simp: terminator_free_def)
qed

lemma digit_terminator_free: "digit n \<noteq> newline \<and> digit n \<noteq> creturn"
proof -
  have "digit n \<in> set (lit ''0123456789'')"
    unfolding digit_def by (rule nth_mem) (simp add: lit_def)
  moreover have "terminator_free (lit ''0123456789'')"
    by (rule terminator_free_lit) simp_all
  ultimately show ?thesis
    by (auto simp: terminator_free_def)
qed

lemma UnicodeEscape_terminator_free: "terminator_free (UnicodeEscape c)"
  using hexdigit_terminator_free
  by (simp add: UnicodeEscape_def terminator_free_Cons backslash_def newline_def creturn_def)

lemma QuoteJSONCodeUnit_terminator_free: "terminator_free (QuoteJSONCodeUnit c)"
  unfolding QuoteJSONCodeUnit_def
  by (auto simp: UnicodeEscape_terminator_free terminator_free_Cons backslash_def newline_def
      creturn_def dquote_def)

lemma surrogate_not_terminator:
  "leading_surrogate c \<Longrightarrow> c \<noteq> newline \<and> c \<noteq> creturn"
  "trailing_surrogate c \<Longrightarrow> c \<noteq> newline \<and> c \<noteq> creturn"
  by (auto simp: leading_surrogate_def trailing_surrogate_def newline_def creturn_def)

lemma QuoteJSONCodeUnits_terminator_free: "terminator_free (QuoteJSONCodeUnits s)"
  by (induction s rule: QuoteJSONCodeUnits.induct)
     (simp_all add: QuoteJSONCodeUnit_terminator_free terminator_free_Cons
        surrogate_not_terminator)

lemma QuoteJSONString_terminator_free: "terminator_free (QuoteJSONString s)"
  by (simp add: QuoteJSONString_def QuoteJSONCodeUnits_terminator_free terminator_free_Cons
      special_chars_distinct)

lemma digits_terminator_free: "terminator_free (digits n)"
proof (induction n rule: digits.induct)
  case (1 n)
  show ?case
    using 1 digit_terminator_free [of n]
    by (subst digits.simps) (simp add: terminator_free_Cons)
qed

lemma replicate_digit_terminator_free: "terminator_free (replicate m (digit 0))"
  using digit_terminator_free [of 0] by (induction m) (simp_all add: terminator_free_Cons)

lemma NumberToString_terminator_free: "terminator_free (NumberToString x)"
proof (cases x)
  case NaN
  then show ?thesis by (simp add: NumberToString_def terminator_free_lit)
next
  case (Infinity negative)
  then show ?thesis by (simp add: NumberToString_def terminator_free_lit)
next
  case (Finite negative s n)
  have t: "terminator_free (take m (digits s))" and d: "terminator_free (drop m (digits s))" for m
    by (rule terminator_free_subset [OF digits_terminator_free], rule set_take_subset)
       (rule terminator_free_subset [OF digits_terminator_free], rule set_drop_subset)
  show ?thesis
    unfolding Finite NumberToString_def Let_def
    by (simp add: terminator_free_lit digits_terminator_free replicate_digit_terminator_free t d)
qed

lemma JSON_stringify_terminator_free: "terminator_free (JSON_stringify v)"
proof (induction v)
  case JNull
  show ?case by (simp add: terminator_free_lit)
next
  case (JBool b)
  show ?case by (simp add: terminator_free_lit)
next
  case (JNum x)
  show ?case
    by (cases x) (simp_all add: terminator_free_lit NumberToString_terminator_free)
next
  case (JStr s)
  show ?case by (simp add: QuoteJSONString_terminator_free)
next
  case (JArr xs)
  have "terminator_free (join (map JSON_stringify xs) (lit '',''))"
    using JArr by (intro join_terminator_free) (auto simp: terminator_free_lit)
  then show ?case by (simp add: terminator_free_lit)
next
  case (JObj kvs)
  let ?f = "\<lambda>kv. QuoteJSONString (fst kv) @ lit '':'' @ JSON_stringify (snd kv)"
  have each: "terminator_free (?f kv)" if kv: "kv \<in> set kvs" for kv
  proof -
    have "snd kv \<in> Basic_BNFs.snds kv" by (cases kv) simp
    with JObj kv have "terminator_free (JSON_stringify (snd kv))"
      by blast
    then show ?thesis
      by (simp add: QuoteJSONString_terminator_free terminator_free_lit)
  qed
  have "terminator_free (join (map ?f kvs) (lit '',''))"
    using each by (intro join_terminator_free) (auto simp: terminator_free_lit)
  then show ?case by (simp add: terminator_free_lit)
qed

text \<open>
  Two numbers and a string as \<^verbatim>\<open>JSON.stringify\<close> writes them: ten to the power 21 (one
  digit, 22 places before the point) goes to exponent notation, a seventeen-digit integer
  is padded with zeros, and the line separator U+2028 is written as it is.
\<close>

lemma replicate_4: "replicate 4 x = [x, x, x, x]"
  by (simp add: numeral_eq_Suc)

lemma JSON_stringify_examples:
  "JSON_stringify (JNum (Finite False 1 22)) = lit ''1e+21''"
  "JSON_stringify (JNum (Finite False 12345678901234568 21)) = lit ''123456789012345680000''"
  "JSON_stringify (JNum (Finite True 15 0)) = lit ''-0.15''"
  "JSON_stringify (JNum NaN) = lit ''null''"
  "JSON_stringify (JStr [0x2028]) = [dquote, 0x2028, dquote]"
  "JSON_stringify (JStr [0xD83D, 0xDE00]) = [dquote, 0xD83D, 0xDE00, dquote]"
  "JSON_stringify (JStr [0xDE00]) = [dquote, backslash] @ lit ''ude00'' @ [dquote]"
  by (simp_all add: NumberToString_def digits.simps digit_def hexdigit_def lit_def
      QuoteJSONString_def QuoteJSONCodeUnit_def UnicodeEscape_def leading_surrogate_def
      trailing_surrogate_def dquote_def backslash_def newline_def creturn_def Let_def
      replicate_4)

lemma expression_split:
  "expression ns literal = script_before_literal ns @ literal @ quote # script_after_literal"
  by (simp add: expression_def script_before_literal_def script_after_literal_def)


subsection \<open>The registry: what \<^verbatim>\<open>of\<close> returns\<close>

lemma registry_ok_iff:
  "registry_ok w \<longleftrightarrow>
     (\<forall>r < length (servers w). \<forall>k c. (k, c) \<in> set (namespaceMap (servers w ! r)) \<longrightarrow>
        c < length (servers w) \<and> fullNamespace (servers w ! c) = k
        \<and> path (servers w ! c) = path (servers w ! r)
        \<and> k \<notin> set Object_prototype_properties)"
proof -
  have "registry_ok w \<longleftrightarrow>
    (\<forall>s \<in> set (servers w). \<forall>kc \<in> set (namespaceMap s).
       snd kc < length (servers w) \<and> fullNamespace (servers w ! snd kc) = fst kc
       \<and> path (servers w ! snd kc) = path s
       \<and> fst kc \<notin> set Object_prototype_properties)"
    by (simp add: registry_ok_def list_all_iff)
  also have "\<dots> \<longleftrightarrow>
    (\<forall>r < length (servers w). \<forall>kc \<in> set (namespaceMap (servers w ! r)).
       snd kc < length (servers w) \<and> fullNamespace (servers w ! snd kc) = fst kc
       \<and> path (servers w ! snd kc) = path (servers w ! r)
       \<and> fst kc \<notin> set Object_prototype_properties)"
    by (rule all_set_conv_all_nth)
  also have "\<dots> \<longleftrightarrow>
    (\<forall>r < length (servers w). \<forall>k c. (k, c) \<in> set (namespaceMap (servers w ! r)) \<longrightarrow>
        c < length (servers w) \<and> fullNamespace (servers w ! c) = k
        \<and> path (servers w ! c) = path (servers w ! r)
        \<and> k \<notin> set Object_prototype_properties)"
    by force
  finally show ?thesis .
qed

lemma of_existing:
  assumes "map_of (namespaceMap (servers w ! r)) (path (servers w ! r) @ ns) = Some c"
  shows "CDPSocketServer_of w r ns = (Server c, w)"
  using assms by (simp add: CDPSocketServer_of_def get_property_def Let_def)

lemma of_inherited:
  assumes "map_of (namespaceMap (servers w ! r)) (path (servers w ! r) @ ns) = None"
    and "path (servers w ! r) @ ns \<in> set Object_prototype_properties"
  shows "CDPSocketServer_of w r ns = (PrototypeProperty (path (servers w ! r) @ ns), w)"
  using assms by (simp add: CDPSocketServer_of_def get_property_def Let_def)

lemma of_missing:
  assumes "map_of (namespaceMap (servers w ! r)) (path (servers w ! r) @ ns) = None"
    and "path (servers w ! r) @ ns \<notin> set Object_prototype_properties"
    and "r < length (servers w)"
  shows "CDPSocketServer_of w r ns =
     (Server (length (servers w)),
      w\<lparr>servers := (servers w)[r := (servers w ! r)\<lparr>namespaceMap := namespaceMap (servers w ! r)
                          @ [(path (servers w ! r) @ ns, length (servers w))]\<rparr>] @
                   [\<lparr>cdpSocket = None, fullNamespace = path (servers w ! r) @ ns,
                     path = path (servers w ! r), namespaceMap = [], server_listeners = []\<rparr>]\<rparr>)"
  using assms
  by (simp add: CDPSocketServer_of_def get_property_def Let_def CDPSocketServer_constructor_def
      update_server_def nth_append list_update_append)

lemma of_Server:
  assumes ok: "registry_ok w" and r: "r < length (servers w)"
    and o: "CDPSocketServer_of w r ns = (Server c, w')"
  shows "registry_ok w' \<and> c < length (servers w')
         \<and> fullNamespace (servers w' ! c) = path (servers w ! r) @ ns
         \<and> path (servers w' ! c) = path (servers w ! r)
         \<and> length (servers w) \<le> length (servers w')
         \<and> (\<forall>i < length (servers w). path (servers w' ! i) = path (servers w ! i)
                \<and> fullNamespace (servers w' ! i) = fullNamespace (servers w ! i))"
proof (cases "map_of (namespaceMap (servers w ! r)) (path (servers w ! r) @ ns)")
  case (Some d)
  then have "CDPSocketServer_of w r ns = (Server d, w)" by (rule of_existing)
  with o have eq: "d = c" "w' = w" by simp_all
  from Some have "(path (servers w ! r) @ ns, d) \<in> set (namespaceMap (servers w ! r))"
    by (rule map_of_SomeD)
  with ok r eq show ?thesis by (auto simp: registry_ok_iff)
next
  case None
  show ?thesis
  proof (cases "path (servers w ! r) @ ns \<in> set Object_prototype_properties")
    case True
    with None o show ?thesis by (simp add: of_inherited)
  next
    case notproto: False
    note m = of_missing [OF None notproto r]
    from m o have c: "c = length (servers w)" and w': "w' = w\<lparr>servers := (servers w)[r := (servers w ! r)\<lparr>namespaceMap := namespaceMap (servers w ! r)
                          @ [(path (servers w ! r) @ ns, length (servers w))]\<rparr>] @
                   [\<lparr>cdpSocket = None, fullNamespace = path (servers w ! r) @ ns,
                     path = path (servers w ! r), namespaceMap = [], server_listeners = []\<rparr>]\<rparr>"
      by simp_all
    have frame: "\<forall>i < length (servers w). path (servers w' ! i) = path (servers w ! i)
                \<and> fullNamespace (servers w' ! i) = fullNamespace (servers w ! i)"
      using r by (auto simp: w' nth_append nth_list_update)
    have "registry_ok w'"
      unfolding registry_ok_iff
    proof (intro allI impI)
      fix i k d
      assume i: "i < length (servers w')" and kd: "(k, d) \<in> set (namespaceMap (servers w' ! i))"
      show "d < length (servers w') \<and> fullNamespace (servers w' ! d) = k
            \<and> path (servers w' ! d) = path (servers w' ! i)
            \<and> k \<notin> set Object_prototype_properties"
      proof (cases "i = length (servers w)")
        case True
        with kd show ?thesis by (simp add: w' nth_append)
      next
        case False
        with i have il: "i < length (servers w)" by (simp add: w')
        show ?thesis
        proof (cases "i = r \<and> (k, d) = (path (servers w ! r) @ ns, length (servers w))")
          case True
          then show ?thesis using r notproto
            by (simp add: w' nth_append)
        next
          case False
          with kd il have old: "(k, d) \<in> set (namespaceMap (servers w ! i))"
            using r by (cases "i = r") (auto simp: w' nth_append)
          with ok il have d: "d < length (servers w)" "fullNamespace (servers w ! d) = k"
            "path (servers w ! d) = path (servers w ! i)"
            "k \<notin> set Object_prototype_properties"
            by (auto simp: registry_ok_iff)
          with frame il show ?thesis by (simp add: w')
        qed
      qed
    qed
    with frame show ?thesis using r by (simp add: c w' nth_append)
  qed
qed


lemma of_result_cases:
  assumes ok: "registry_ok w" and r: "r < length (servers w)"
  shows "(path (servers w ! r) @ ns \<in> set Object_prototype_properties \<longrightarrow>
            CDPSocketServer_of w r ns = (PrototypeProperty (path (servers w ! r) @ ns), w))
       \<and> (path (servers w ! r) @ ns \<notin> set Object_prototype_properties \<longrightarrow>
            (\<exists>c w'. CDPSocketServer_of w r ns = (Server c, w')))"
proof (cases "map_of (namespaceMap (servers w ! r)) (path (servers w ! r) @ ns)")
  case None
  then show ?thesis using of_inherited [OF None] of_missing [OF None _ r] by blast
next
  case (Some d)
  then have "(path (servers w ! r) @ ns, d) \<in> set (namespaceMap (servers w ! r))"
    by (rule map_of_SomeD)
  with ok r have "path (servers w ! r) @ ns \<notin> set Object_prototype_properties"
    by (auto simp: registry_ok_iff)
  with of_existing [OF Some] show ?thesis by blast
qed

lemma child_namespace_eq:
  assumes ok: "registry_ok w" and r: "r < length (servers w)"
  shows "child_namespace w r ns =
           (if path (servers w ! r) @ ns \<in> set Object_prototype_properties then None
            else Some (path (servers w ! r) @ ns))"
proof (cases "path (servers w ! r) @ ns \<in> set Object_prototype_properties")
  case True
  with of_result_cases [OF ok r, of ns] show ?thesis by (simp add: child_namespace_def)
next
  case False
  with of_result_cases [OF ok r, of ns] obtain c w'
    where o: "CDPSocketServer_of w r ns = (Server c, w')" by blast
  from of_Server [OF ok r o] False o show ?thesis by (simp add: child_namespace_def)
qed

lemma nested_namespace_eq:
  assumes ok: "registry_ok w" and r: "r < length (servers w)"
    and o: "CDPSocketServer_of w r a = (Server x, w1)"
  shows "nested_namespace w r a b = child_namespace w r b"
proof -
  from of_Server [OF ok r o] have ok1: "registry_ok w1" and x: "x < length (servers w1)"
    and p: "path (servers w1 ! x) = path (servers w ! r)" by simp_all
  have "nested_namespace w r a b = child_namespace w1 x b"
    using o by (simp add: nested_namespace_def)
  also have "\<dots> = child_namespace w r b"
    by (simp add: child_namespace_eq [OF ok1 x] child_namespace_eq [OF ok r] p)
  finally show ?thesis .
qed

lemma prototype_property_no_slash:
  "k \<in> set Object_prototype_properties \<Longrightarrow> 0x2F \<notin> set k"
  by (auto simp: Object_prototype_properties_def lit_def)

lemma nested_namespace_slash:
  assumes ok: "registry_ok w" and r: "r < length (servers w)"
    and a: "0x2F \<in> set a" and b: "0x2F \<in> set b"
  shows "nested_namespace w r a b = Some (path (servers w ! r) @ b)"
proof -
  have na: "path (servers w ! r) @ a \<notin> set Object_prototype_properties"
    using a prototype_property_no_slash by fastforce
  have nb: "path (servers w ! r) @ b \<notin> set Object_prototype_properties"
    using b prototype_property_no_slash by fastforce
  from of_result_cases [OF ok r, of a] na obtain x w1
    where o: "CDPSocketServer_of w r a = (Server x, w1)" by blast
  show ?thesis
    by (simp add: nested_namespace_eq [OF ok r o] child_namespace_eq [OF ok r] nb)
qed

lemma registry_world_eq:
  "registry_world = \<lparr>servers = [\<lparr>cdpSocket = None, fullNamespace = lit ''/__socket/default'',
       path = lit ''/__socket'', namespaceMap = [], server_listeners = []\<rparr>], sockets = [], clients = [],
       pending = [], uuid_count = 0, calls = [], unhandled = []\<rparr>"
  by (simp add: registry_world_def CDPSocketServer_constructor_def empty_world_def
      lit_append [symmetric])

lemma registry_world_ok: "registry_ok registry_world"
  by (simp add: registry_world_eq registry_ok_def)

lemma default_registry_world_eq:
  "default_registry_world = \<lparr>servers = [\<lparr>cdpSocket = None, fullNamespace = lit ''/default'',
       path = [], namespaceMap = [], server_listeners = []\<rparr>], sockets = [], clients = [],
       pending = [], uuid_count = 0, calls = [], unhandled = []\<rparr>"
  by (simp add: default_registry_world_def CDPSocketServer_constructor_def empty_world_def)

lemma default_registry_world_ok: "registry_ok default_registry_world"
  by (simp add: default_registry_world_eq registry_ok_def)

lemma of_twice:
  assumes r: "r < length (servers w)" and o: "CDPSocketServer_of w r ns = (v, w1)"
  shows "CDPSocketServer_of w1 r ns = (v, w1)"
proof (cases "map_of (namespaceMap (servers w ! r)) (path (servers w ! r) @ ns)")
  case (Some d)
  with o of_existing [OF Some] show ?thesis by auto
next
  case None
  show ?thesis
  proof (cases "path (servers w ! r) @ ns \<in> set Object_prototype_properties")
    case True
    with o of_inherited [OF None True] show ?thesis by auto
  next
    case False
    from o of_missing [OF None False r]
    have v: "v = Server (length (servers w))"
      and w1: "w1 = w\<lparr>servers := (servers w)[r := (servers w ! r)\<lparr>namespaceMap := namespaceMap (servers w ! r)
                          @ [(path (servers w ! r) @ ns, length (servers w))]\<rparr>] @
                   [\<lparr>cdpSocket = None, fullNamespace = path (servers w ! r) @ ns,
                     path = path (servers w ! r), namespaceMap = [], server_listeners = []\<rparr>]\<rparr>"
      by simp_all
    have "map_of (namespaceMap (servers w1 ! r)) (path (servers w1 ! r) @ ns)
            = Some (length (servers w))"
      using r None by (simp add: w1 nth_append map_add_Some_iff)
    from of_existing [OF this] v show ?thesis by simp
  qed
qed

text \<open>
  C8. For every node of a sound registry (every reachable world has one), whatever the
  node's path prefix, the full namespace of \<^verbatim>\<open>of("/a").of("/b")\<close> and that of
  \<^verbatim>\<open>of("/b").of("/a")\<close> are different strings: the first is the prefix followed by
  \<^verbatim>\<open>/b\<close>, the second the prefix followed by \<^verbatim>\<open>/a\<close>. The order of the two suffixes
  decides the result.
\<close>

theorem nested_of_order:
  assumes "registry_ok w" and "r < length (servers w)"
  shows "nested_namespace w r (lit ''/a'') (lit ''/b'') = Some (path (servers w ! r) @ lit ''/b'')
       \<and> nested_namespace w r (lit ''/b'') (lit ''/a'') = Some (path (servers w ! r) @ lit ''/a'')
       \<and> nested_namespace w r (lit ''/a'') (lit ''/b'')
           \<noteq> nested_namespace w r (lit ''/b'') (lit ''/a'')"
proof -
  have s: "0x2F \<in> set (lit ''/a'')" "0x2F \<in> set (lit ''/b'')"
    by (simp_all add: lit_def)
  show ?thesis
    using assms by (simp add: nested_namespace_slash s)
qed

theorem nested_of_order_witness:
  "registry_ok registry_world \<and> 0 < length (servers registry_world)
   \<and> path (servers registry_world ! 0) = lit ''/__socket''
   \<and> nested_namespace registry_world 0 (lit ''/a'') (lit ''/b'') = Some (lit ''/__socket/b'')
   \<and> nested_namespace registry_world 0 (lit ''/b'') (lit ''/a'') = Some (lit ''/__socket/a'')
   \<and> nested_namespace registry_world 0 (lit ''/a'') (lit ''/b'')
       \<noteq> nested_namespace registry_world 0 (lit ''/b'') (lit ''/a'')"
  using nested_of_order [of registry_world 0]
  by (simp add: registry_world_ok) (simp add: registry_world_eq lit_append [symmetric])

text \<open>
  Nested calls of \<^verbatim>\<open>of\<close> do not compose namespaces. In a sound registry, whenever
  \<^verbatim>\<open>r.of(a)\<close> is a server, that child carries the path prefix of \<^verbatim>\<open>r\<close> and nothing
  of \<^verbatim>\<open>a\<close>, so \<^verbatim>\<open>r.of(a).of(b)\<close> and \<^verbatim>\<open>r.of(b)\<close> have the same full namespace, the
  prefix followed by \<^verbatim>\<open>b\<close>.
\<close>

lemma nested_of_does_not_compose:
  assumes "registry_ok w" and "r < length (servers w)"
    and "CDPSocketServer_of w r a = (Server x, w1)"
  shows "path (servers w1 ! x) = path (servers w ! r)
       \<and> nested_namespace w r a b = child_namespace w r b
       \<and> (path (servers w ! r) @ b \<notin> set Object_prototype_properties \<longrightarrow>
            nested_namespace w r a b = Some (path (servers w ! r) @ b))"
  using of_Server [OF assms] nested_namespace_eq [OF assms] child_namespace_eq [OF assms(1,2)]
  by simp

text \<open>
  What a node registers when a client is attached to it: the two commands of
  \<^verbatim>\<open>CDPSocket.init\<close>, the second the binding named after the node's full namespace.
\<close>

lemma attachCDPClient_registers:
  assumes "c < length (clients w)"
    and "\<not> rejects (clients w ! c) Runtime_enable"
    and "\<not> rejects (clients w ! c) (Runtime_addBinding (bindingName (fullNamespace (servers w ! r))))"
  shows "sent (clients (snd (CDPSocketServer_attachCDPClient_init w r c)) ! c)
           = sent (clients w ! c)
             @ [Runtime_enable, Runtime_addBinding (bindingName (fullNamespace (servers w ! r)))]"
  using assms
  by (simp add: CDPSocketServer_attachCDPClient_init_def CDPSocket_init_def client_send_def
      CDPSocket_constructor_def update_client_def update_server_def Let_def)

text \<open>
  The two nodes \<^verbatim>\<open>r.of(a).of(b)\<close> and \<^verbatim>\<open>r.of(b)\<close> carry the same full namespace, and a
  client attached to either is sent the same binding name.
\<close>

lemma nested_binding_name:
  assumes ok: "registry_ok w" and r: "r < length (servers w)"
    and oa: "CDPSocketServer_of w r a = (Server x, w1)"
    and ob: "CDPSocketServer_of w1 x b = (Server y, w2)"
    and oc: "CDPSocketServer_of w2 r b = (Server z, w3)"
    and cl: "c < length (clients w3)"
    and en: "\<not> rejects (clients w3 ! c) Runtime_enable"
    and ab: "\<not> rejects (clients w3 ! c)
               (Runtime_addBinding (bindingName (path (servers w ! r) @ b)))"
  shows "fullNamespace (servers w3 ! y) = path (servers w ! r) @ b
       \<and> fullNamespace (servers w3 ! z) = path (servers w ! r) @ b
       \<and> sent (clients (snd (CDPSocketServer_attachCDPClient_init w3 y c)) ! c)
           = sent (clients w3 ! c)
             @ [Runtime_enable, Runtime_addBinding (bindingName (path (servers w ! r) @ b))]
       \<and> sent (clients (snd (CDPSocketServer_attachCDPClient_init w3 z c)) ! c)
           = sent (clients w3 ! c)
             @ [Runtime_enable, Runtime_addBinding (bindingName (path (servers w ! r) @ b))]"
proof -
  note a = of_Server [OF ok r oa]
  then have ok1: "registry_ok w1" and x: "x < length (servers w1)"
    and px: "path (servers w1 ! x) = path (servers w ! r)"
    and l1: "length (servers w) \<le> length (servers w1)" by simp_all
  from a r have pr1: "path (servers w1 ! r) = path (servers w ! r)" by simp
  note b = of_Server [OF ok1 x ob]
  then have ok2: "registry_ok w2" and y: "y < length (servers w2)"
    and fy: "fullNamespace (servers w2 ! y) = path (servers w ! r) @ b"
    and l2: "length (servers w1) \<le> length (servers w2)" by (simp_all add: px)
  from r l1 l2 have r2: "r < length (servers w2)" and r1: "r < length (servers w1)" by simp_all
  from b r1 pr1 have pr2: "path (servers w2 ! r) = path (servers w ! r)" by simp
  note c = of_Server [OF ok2 r2 oc]
  then have fz: "fullNamespace (servers w3 ! z) = path (servers w ! r) @ b"
    by (simp add: pr2)
  from c y fy have fy3: "fullNamespace (servers w3 ! y) = path (servers w ! r) @ b" by simp
  from ab have aby: "\<not> rejects (clients w3 ! c)
                        (Runtime_addBinding (bindingName (fullNamespace (servers w3 ! y))))"
    and abz: "\<not> rejects (clients w3 ! c)
                        (Runtime_addBinding (bindingName (fullNamespace (servers w3 ! z))))"
    by (simp_all add: fy3 fz)
  from attachCDPClient_registers [OF cl en aby] attachCDPClient_registers [OF cl en abz] fy3 fz
  show ?thesis by simp
qed

text \<open>
  C10, at the input where the code leaves the claim. On a registry made with no options,
  \<^verbatim>\<open>of("constructor")\<close> is not a registry node (it is the property every plain object
  inherits), so \<^verbatim>\<open>of("constructor").of("/b")\<close> has no full namespace: the second call
  throws. \<^verbatim>\<open>of("/b")\<close> on the same registry is a node, with the full namespace
  \<^verbatim>\<open>/b\<close>.
\<close>

theorem nested_of_inherited_key:
  "nested_namespace default_registry_world 0 (lit ''constructor'') (lit ''/b'') = None
   \<and> child_namespace default_registry_world 0 (lit ''/b'') = Some (lit ''/b'')"
proof -
  have k: "lit ''constructor'' \<in> set Object_prototype_properties"
    by (simp add: Object_prototype_properties_def)
  have nk: "lit ''/b'' \<notin> set Object_prototype_properties"
    by (simp add: Object_prototype_properties_def)
  have len: "0 < length (servers default_registry_world)"
    and p: "path (servers default_registry_world ! 0) = []"
    and m: "namespaceMap (servers default_registry_world ! 0) = []"
    by (simp_all add: default_registry_world_eq)
  have "CDPSocketServer_of default_registry_world 0 (lit ''constructor'')
          = (PrototypeProperty (lit ''constructor''), default_registry_world)"
    using of_inherited [of default_registry_world 0 "lit ''constructor''"] k
    by (simp add: p m)
  then have 1: "nested_namespace default_registry_world 0 (lit ''constructor'') (lit ''/b'') = None"
    by (simp add: nested_namespace_def)
  have 2: "child_namespace default_registry_world 0 (lit ''/b'') = Some (lit ''/b'')"
    using child_namespace_eq [OF default_registry_world_ok len, of "lit ''/b''"] nk
    by (simp add: p)
  from 1 2 show ?thesis by simp
qed

text \<open>
  C7, at the input where the code leaves the claim. On a registry made with no options the
  path is empty, so \<^verbatim>\<open>of("constructor")\<close> looks up the key \<^verbatim>\<open>constructor\<close>, finds the
  property every plain object inherits, and returns it: no child is created, the world is
  as it was, and what comes back is not a server.
\<close>

theorem of_inherited_key:
  "CDPSocketServer_of default_registry_world 0 (lit ''constructor'')
     = (PrototypeProperty (lit ''constructor''), default_registry_world)
   \<and> namespaceMap (servers default_registry_world ! 0) = []"
  by (simp add: default_registry_world_eq CDPSocketServer_of_def get_property_def
      Object_prototype_properties_def Let_def)

subsection \<open>The test codec and worlds, evaluated\<close>

lemma digits_small: "n < 10 \<Longrightarrow> digits n = [digit n]"
  by (simp add: digits.simps)

lemma packet_texts:
  \<open>JSON_stringify ping_packet = lit ''["ping","ping-uuid0",[1,2]]''\<close>
  \<open>JSON_stringify greet_packet = lit ''["greet","greet-ackid123",["hi"]]''\<close>
  \<open>JSON_stringify ack_packet = lit ''["ping-uuid0","ping-uuid0-ackid456",["ok"]]''\<close>
  \<open>JSON_stringify error_packet = lit ''["error","error-ackid789",["boom"]]''\<close>
  by (simp_all add: ping_packet_def greet_packet_def ack_packet_def error_packet_def
      number_1_def number_2_def
      QuoteJSONString_def QuoteJSONCodeUnit_def NumberToString_def digits_small digit_def
      dquote_def backslash_def newline_def creturn_def leading_surrogate_def
      trailing_surrogate_def lit_def Let_def)

lemma test_parse:
  "JSON_parse test_externals (JSON_stringify ping_packet) = Some ping_packet"
  "JSON_parse test_externals (JSON_stringify greet_packet) = Some greet_packet"
  "JSON_parse test_externals (JSON_stringify ack_packet) = Some ack_packet"
  "JSON_parse test_externals (JSON_stringify error_packet) = Some error_packet"
  by (simp_all add: test_externals_def parse_among_def packet_texts)

lemma test_uuid:
  "randomUUID test_externals 0 = lit ''uuid0''"
  "randomUUID test_externals (Suc 0) = lit ''uuid1''"
  by (simp_all add: test_externals_def digits_small digit_def lit_def)

lemma bridge_world_eq:
  "bridge_world =
     \<lparr>servers = [],
      sockets = [\<lparr>cdpClient = Some 0, namespace = lit ''/a'', executionContextId = None,
                  listeners = []\<rparr>,
                 \<lparr>cdpClient = Some 0, namespace = lit ''/b'', executionContextId = None,
                  listeners = []\<rparr>],
      clients = [\<lparr>handlers = [0, 1],
                  sent = [Runtime_enable, Runtime_addBinding (lit ''cypressSendToServer-/a''),
                          Runtime_enable, Runtime_addBinding (lit ''cypressSendToServer-/b'')],
                  rejects = (\<lambda>cmd. False)\<rparr>],
      pending = [], uuid_count = 0, calls = [], unhandled = []\<rparr>"
  by (simp add: bridge_world_def client_world_def empty_world_def CDPSocket_init_def
      client_send_def update_client_def CDPSocket_constructor_def bindingName_def client_on_def
      Let_def lit_append [symmetric])

subsection \<open>Inbound: the binding name decides\<close>

lemma processCDPRuntimeBinding_other:
  assumes "h \<noteq> b"
  shows "sockets (CDPSocket_processCDPRuntimeBinding ext w h ev) ! b = sockets w ! b
       \<and> pending_of (CDPSocket_processCDPRuntimeBinding ext w h ev) b = pending_of w b"
  using assms
  by (simp add: CDPSocket_processCDPRuntimeBinding_def update_socket_def pending_of_def Let_def
      split: option.splits)

lemma processCDPRuntimeBinding_ignored:
  assumes "bc_name ev \<noteq> bindingName (namespace (sockets w ! b))"
  shows "CDPSocket_processCDPRuntimeBinding ext w b ev = w"
  using assms by (simp add: CDPSocket_processCDPRuntimeBinding_def)

lemma notify_fold_frame:
  assumes "b \<notin> set hs \<or> bc_name ev \<noteq> bindingName (namespace (sockets w ! b))"
  shows "sockets (foldl (\<lambda>w sid. CDPSocket_processCDPRuntimeBinding ext w sid ev) w hs) ! b
           = sockets w ! b
       \<and> pending_of (foldl (\<lambda>w sid. CDPSocket_processCDPRuntimeBinding ext w sid ev) w hs) b
           = pending_of w b"
  using assms
proof (induction hs arbitrary: w)
  case Nil
  show ?case by simp
next
  case (Cons h hs)
  let ?w1 = "CDPSocket_processCDPRuntimeBinding ext w h ev"
  have step: "sockets ?w1 ! b = sockets w ! b \<and> pending_of ?w1 b = pending_of w b"
  proof (cases "h = b")
    case True
    with Cons.prems have "bc_name ev \<noteq> bindingName (namespace (sockets w ! b))" by simp
    with True show ?thesis by (simp add: processCDPRuntimeBinding_ignored)
  next
    case False
    then show ?thesis by (rule processCDPRuntimeBinding_other)
  qed
  with Cons.prems have "b \<notin> set hs \<or> bc_name ev \<noteq> bindingName (namespace (sockets ?w1 ! b))"
    by auto
  from Cons.IH [OF this] step show ?case by simp
qed

lemma client_notify_frame:
  assumes "b \<notin> set (handlers (clients w ! c))
           \<or> bc_name ev \<noteq> bindingName (namespace (sockets w ! b))"
  shows "sockets (client_notify ext w c ev) ! b = sockets w ! b
       \<and> pending_of (client_notify ext w c ev) b = pending_of w b"
  unfolding client_notify_def using assms by (rule notify_fold_frame)

lemma bindingName_inject: "bindingName a = bindingName b \<longleftrightarrow> a = b"
  by (simp add: bindingName_def)

text \<open>
  C1. A notification whose binding name is not \<^verbatim>\<open>cypressSendToServer-\<close> followed by the
  socket's namespace leaves everything as it was: the handler returns the world unchanged,
  and after the client has delivered the notification to all its handlers this socket is
  the same and no promise of its own was added, so nothing will be dispatched on it. A
  handler that changes anything was called under exactly its own binding name. Hence an
  invocation under the binding name of a socket on namespace A does nothing on a socket on a
  different namespace B.
\<close>

theorem binding_name_filter:
  "(bc_name ev \<noteq> bindingName (namespace (sockets w ! b)) \<longrightarrow>
      CDPSocket_processCDPRuntimeBinding ext w b ev = w
      \<and> sockets (client_notify ext w c ev) ! b = sockets w ! b
      \<and> pending_of (client_notify ext w c ev) b = pending_of w b)
   \<and> (CDPSocket_processCDPRuntimeBinding ext w b ev \<noteq> w \<longrightarrow>
        bc_name ev = lit ''cypressSendToServer-'' @ namespace (sockets w ! b))
   \<and> (namespace (sockets w ! a) \<noteq> namespace (sockets w ! b)
        \<and> bc_name ev = bindingName (namespace (sockets w ! a)) \<longrightarrow>
      CDPSocket_processCDPRuntimeBinding ext w b ev = w
      \<and> sockets (client_notify ext w c ev) ! b = sockets w ! b
      \<and> pending_of (client_notify ext w c ev) b = pending_of w b)"
proof -
  have 1: "CDPSocket_processCDPRuntimeBinding ext w b ev = w
      \<and> sockets (client_notify ext w c ev) ! b = sockets w ! b
      \<and> pending_of (client_notify ext w c ev) b = pending_of w b"
    if "bc_name ev \<noteq> bindingName (namespace (sockets w ! b))"
    using that processCDPRuntimeBinding_ignored client_notify_frame by blast
  have 2: "bc_name ev = lit ''cypressSendToServer-'' @ namespace (sockets w ! b)"
    if "CDPSocket_processCDPRuntimeBinding ext w b ev \<noteq> w"
    using that processCDPRuntimeBinding_ignored [of ev w b ext] by (auto simp: bindingName_def)
  have 3: "bc_name ev \<noteq> bindingName (namespace (sockets w ! b))"
    if "namespace (sockets w ! a) \<noteq> namespace (sockets w ! b)"
      and "bc_name ev = bindingName (namespace (sockets w ! a))"
    using that by (simp add: bindingName_inject)
  from 1 2 3 show ?thesis by blast
qed

theorem binding_name_filter_witness:
  "namespace (sockets bridge_world ! 0) \<noteq> namespace (sockets bridge_world ! 1)
   \<and> bc_name invocation_for_a = bindingName (namespace (sockets bridge_world ! 0))
   \<and> bc_name invocation_for_a \<noteq> bindingName (namespace (sockets bridge_world ! 1))
   \<and> CDPSocket_processCDPRuntimeBinding test_externals bridge_world 1 invocation_for_a = bridge_world
   \<and> CDPSocket_processCDPRuntimeBinding test_externals bridge_world 0 invocation_for_a \<noteq> bridge_world
   \<and> sockets (client_notify test_externals bridge_world 0 invocation_for_a) ! 1 = sockets bridge_world ! 1
   \<and> pending_of (client_notify test_externals bridge_world 0 invocation_for_a) 1 = []
   \<and> pending_of (client_notify test_externals bridge_world 0 invocation_for_a) 0 = [Decoding 0 greet_packet]"
proof -
  have nm: "bc_name invocation_for_a = lit ''cypressSendToServer-/a''"
    by (simp add: invocation_for_a_def)
  have p0: "pending_of bridge_world 1 = []"
    by (simp add: bridge_world_eq pending_of_def)
  have changed: "CDPSocket_processCDPRuntimeBinding test_externals bridge_world 0 invocation_for_a
                   \<noteq> bridge_world"
    by (simp add: bridge_world_eq CDPSocket_processCDPRuntimeBinding_def invocation_for_a_def
        bindingName_def update_socket_def test_parse Let_def lit_append [symmetric])
  have own: "pending_of (client_notify test_externals bridge_world 0 invocation_for_a) 0
               = [Decoding 0 greet_packet]"
    by (simp add: bridge_world_eq client_notify_def CDPSocket_processCDPRuntimeBinding_def
        invocation_for_a_def bindingName_def update_socket_def test_parse Let_def
        pending_of_def lit_append [symmetric])
  have neq: "bc_name invocation_for_a \<noteq> bindingName (namespace (sockets bridge_world ! 1))"
    by (simp add: bridge_world_eq nm bindingName_def lit_append [symmetric])
  have eq: "bc_name invocation_for_a = bindingName (namespace (sockets bridge_world ! 0))"
    by (simp add: bridge_world_eq nm bindingName_def lit_append [symmetric])
  note res = binding_name_filter [of invocation_for_a bridge_world 1 test_externals 0 0]
  from res neq have ignored:
    "CDPSocket_processCDPRuntimeBinding test_externals bridge_world 1 invocation_for_a = bridge_world"
    "sockets (client_notify test_externals bridge_world 0 invocation_for_a) ! 1 = sockets bridge_world ! 1"
    "pending_of (client_notify test_externals bridge_world 0 invocation_for_a) 1 = pending_of bridge_world 1"
    by blast+
  have differ: "namespace (sockets bridge_world ! 0) \<noteq> namespace (sockets bridge_world ! 1)"
    by (simp add: bridge_world_eq)
  show ?thesis
    using differ eq neq ignored(1) changed ignored(2) ignored(3) [unfolded p0] own
    by (intro conjI)
qed


subsection \<open>Outbound: \<^verbatim>\<open>emit\<close>\<close>

lemma and_then_Return [simp]: "and_then (Return x, w) k = k x w"
  by (simp add: and_then_def)

lemma and_then_Throw [simp]: "and_then (Throw e, w) k = (Throw e, w)"
  by (simp add: and_then_def)

lemma and_then_eq_Throw:
  "fst r = Throw e \<Longrightarrow> and_then r k = (Throw e, snd r)"
  by (cases r) (simp add: and_then_def)

lemma has_listener_sockets:
  "sockets w' = sockets w \<Longrightarrow> has_listener w' sid ev = has_listener w sid ev"
  by (simp add: has_listener_def)

lemma has_listener_uuid [simp]:
  "has_listener (w\<lparr>uuid_count := n\<rparr>) sid ev = has_listener w sid ev"
  by (simp add: has_listener_def)

lemma has_listener_pending [simp]:
  "has_listener (w\<lparr>pending := p\<rparr>) sid ev = has_listener w sid ev"
  by (simp add: has_listener_def)

lemma trailing_callback_Nil [simp]: "trailing_callback [] = None"
  by (simp add: trailing_callback_def)

lemma trailing_callback_snoc [simp]:
  "trailing_callback (rest @ [v]) = (case v of Function f \<Rightarrow> Some f | _ \<Rightarrow> None)"
  by (cases rest) (simp_all add: trailing_callback_def)

lemma trailing_callback_Some:
  "trailing_callback args = Some f \<longleftrightarrow> (\<exists>rest. args = rest @ [Function f])"
proof
  assume t: "trailing_callback args = Some f"
  then have ne: "args \<noteq> []" by (cases args) simp_all
  with t have "last args = Function f"
    by (cases args; cases "last args") (simp_all add: trailing_callback_def)
  with ne have "args = butlast args @ [Function f]" by (metis append_butlast_last_id)
  then show "\<exists>rest. args = rest @ [Function f]" ..
next
  assume "\<exists>rest. args = rest @ [Function f]"
  then show "trailing_callback args = Some f" by auto
qed

text \<open>The three ways a call of \<^verbatim>\<open>emit\<close> with a string for its event name can go.\<close>

lemma emit_within_no_callback:
  assumes "trailing_callback args = None"
  shows "CDPSocket_emit_within (Suc d) ext w sid (Name ev) args
           = (Return True,
              w\<lparr>uuid_count := Suc (uuid_count w),
                pending := pending w @
                  [Encoding sid (ev, ev @ lit ''-'' @ randomUUID ext (uuid_count w), args)]\<rparr>)"
  using assms by (simp add: Let_def)

lemma emit_within_callback:
  assumes "\<not> has_listener w sid (Name (lit ''newListener''))"
  shows "CDPSocket_emit_within (Suc d) ext w sid (Name ev) (rest @ [Function f])
           = (Return True,
              (update_socket w sid
                 (\<lambda>s. s\<lparr>listeners := listeners s @
                    [\<lparr>l_event = Name (ev @ lit ''-'' @ randomUUID ext (uuid_count w)),
                      l_fn = f, l_once = True\<rparr>]\<rparr>))
              \<lparr>uuid_count := Suc (uuid_count w),
               pending := pending w @
                 [Encoding sid (ev, ev @ lit ''-'' @ randomUUID ext (uuid_count w), rest)]\<rparr>)"
  using assms by (simp add: Let_def EventEmitter_addListener_def update_socket_def)

lemma emit_within_overflow:
  assumes "has_listener w sid (Name (lit ''newListener''))"
  shows "CDPSocket_emit_within d ext w sid (Name ev) (rest @ [Function f])
           = (Throw RangeError, w\<lparr>uuid_count := uuid_count w + d\<rparr>)"
  using assms
proof (induction d arbitrary: w ev rest)
  case 0
  show ?case by simp
next
  case (Suc d)
  let ?w1 = "w\<lparr>uuid_count := Suc (uuid_count w)\<rparr>"
  let ?cb = "ev @ lit ''-'' @ randomUUID ext (uuid_count w)"
  have h: "has_listener ?w1 sid (Name (lit ''newListener''))"
    using Suc.prems by simp
  have inner: "CDPSocket_emit_within d ext ?w1 sid (Name (lit ''newListener''))
                 ([name_value (Name ?cb)] @ [Function f])
               = (Throw RangeError, ?w1\<lparr>uuid_count := uuid_count ?w1 + d\<rparr>)"
    by (rule Suc.IH [OF h])
  have "EventEmitter_addListener (\<lambda>w'. CDPSocket_emit_within d ext w' sid) ?w1 sid (Name ?cb) f True
          = (Throw RangeError, ?w1\<lparr>uuid_count := uuid_count ?w1 + d\<rparr>)"
    using h inner by (simp add: EventEmitter_addListener_def)
  then show ?case
    by (simp add: Let_def)
qed


lemma stack_depth_Suc: "0 < stack_depth ext \<Longrightarrow> \<exists>d. stack_depth ext = Suc d"
  by (cases "stack_depth ext") simp_all

lemma emit_no_callback:
  assumes "0 < stack_depth ext" and "trailing_callback args = None"
  shows "CDPSocket_emit ext w sid (Name ev) args
           = (Return True,
              w\<lparr>uuid_count := Suc (uuid_count w),
                pending := pending w @
                  [Encoding sid (ev, ev @ lit ''-'' @ randomUUID ext (uuid_count w), args)]\<rparr>)"
proof -
  from assms(1) obtain d where "stack_depth ext = Suc d" by (auto dest: stack_depth_Suc)
  then show ?thesis
    unfolding CDPSocket_emit_def using assms(2)
    by (simp del: CDPSocket_emit_within.simps add: emit_within_no_callback)
qed

lemma emit_callback:
  assumes "0 < stack_depth ext" and "\<not> has_listener w sid (Name (lit ''newListener''))"
  shows "CDPSocket_emit ext w sid (Name ev) (rest @ [Function f])
           = (Return True,
              (update_socket w sid
                 (\<lambda>s. s\<lparr>listeners := listeners s @
                    [\<lparr>l_event = Name (ev @ lit ''-'' @ randomUUID ext (uuid_count w)),
                      l_fn = f, l_once = True\<rparr>]\<rparr>))
              \<lparr>uuid_count := Suc (uuid_count w),
               pending := pending w @
                 [Encoding sid (ev, ev @ lit ''-'' @ randomUUID ext (uuid_count w), rest)]\<rparr>)"
proof -
  from assms(1) obtain d where "stack_depth ext = Suc d" by (auto dest: stack_depth_Suc)
  then show ?thesis
    unfolding CDPSocket_emit_def using assms(2)
    by (simp del: CDPSocket_emit_within.simps add: emit_within_callback)
qed

lemma emit_overflow:
  assumes "has_listener w sid (Name (lit ''newListener''))"
  shows "CDPSocket_emit ext w sid (Name ev) (rest @ [Function f])
           = (Throw RangeError, w\<lparr>uuid_count := uuid_count w + stack_depth ext\<rparr>)"
  unfolding CDPSocket_emit_def using assms by (rule emit_within_overflow)


text \<open>Adding a listener on a socket that announces nothing, and on one that does.\<close>

lemma on_plain:
  assumes "\<not> has_listener w sid (Name (lit ''newListener''))"
  shows "CDPSocket_on ext w sid ev f
           = (Return (), update_socket w sid
                (\<lambda>s. s\<lparr>listeners := listeners s @ [\<lparr>l_event = ev, l_fn = f, l_once = False\<rparr>]\<rparr>))"
    and "CDPSocket_once ext w sid ev f
           = (Return (), update_socket w sid
                (\<lambda>s. s\<lparr>listeners := listeners s @ [\<lparr>l_event = ev, l_fn = f, l_once = True\<rparr>]\<rparr>))"
  using assms by (simp_all add: CDPSocket_on_def CDPSocket_once_def EventEmitter_addListener_def)

lemma on_overflow:
  assumes "has_listener w sid (Name (lit ''newListener''))"
  shows "CDPSocket_on ext w sid ev f
           = (Throw RangeError, w\<lparr>uuid_count := uuid_count w + stack_depth ext\<rparr>)"
    and "CDPSocket_once ext w sid ev f
           = (Throw RangeError, w\<lparr>uuid_count := uuid_count w + stack_depth ext\<rparr>)"
  using assms emit_overflow [OF assms, of ext "lit ''newListener''" "[name_value ev]" f]
  by (simp_all add: CDPSocket_on_def CDPSocket_once_def EventEmitter_addListener_def)

lemma trailing_callback_None:
  "trailing_callback args = None \<longleftrightarrow> args = [] \<or> (\<forall>f. last args \<noteq> Function f)"
  by (cases args; cases "last args") (simp_all add: trailing_callback_def)

lemma emit_encoded_fields:
  "unhandled (CDPSocket_emit_encoded w sid encoded) = unhandled w"
  "calls (CDPSocket_emit_encoded w sid encoded) = calls w"
  "pending (CDPSocket_emit_encoded w sid encoded) = pending w"
  "sockets (CDPSocket_emit_encoded w sid encoded) = sockets w"
  "servers (CDPSocket_emit_encoded w sid encoded) = servers w"
  by (simp_all add: CDPSocket_emit_encoded_def client_send_def update_client_def Let_def
      split: option.splits)

lemma emit_encoded_sent:
  assumes "cdpClient (sockets w ! sid) = Some c" and "c < length (clients w)"
  shows "sent (clients (CDPSocket_emit_encoded w sid encoded) ! c)
           = sent (clients w ! c)
             @ [Runtime_evaluate
                  (expression (namespace (sockets w ! sid)) (escapePayload (JSON_stringify encoded)))
                  (executionContextId (sockets w ! sid))]"
  using assms
  by (simp add: CDPSocket_emit_encoded_def client_send_def update_client_def Let_def)

lemma settle_encoding:
  assumes "i < length (pending w)" and "pending w ! i = Encoding sid env"
    and "encode ext env (namespace (sockets w ! sid)) = Some encoded"
  shows "settle ext w i
           = CDPSocket_emit_encoded
               (w\<lparr>pending := take i (pending w) @ drop (Suc i) (pending w)\<rparr>) sid encoded"
  using assms by (simp add: settle_def Let_def)

lemma settle_decoding:
  assumes "i < length (pending w)" and "pending w ! i = Decoding sid data"
    and "decode ext data = Some decoded"
  shows "settle ext w i
           = CDPSocket_processCDPRuntimeBinding_decoded ext
               (w\<lparr>pending := take i (pending w) @ drop (Suc i) (pending w)\<rparr>) sid decoded"
  using assms by (simp add: settle_def Let_def)

text \<open>
  Where \<^verbatim>\<open>emit\<close> does return \<^verbatim>\<open>true\<close>: on every call whose last argument is not a
  function, and on every call on a socket with no listener for \<^verbatim>\<open>newListener\<close>, as long
  as the stack has room for the call itself. It sends nothing and leaves no rejection
  behind. The registry's \<^verbatim>\<open>emit\<close> changes nothing on a node without a socket, and
  otherwise does what its socket's does.
\<close>

lemma emit_returns_true:
  assumes "0 < stack_depth ext"
    and "args = [] \<or> (\<forall>f. last args \<noteq> Function f)
         \<or> \<not> has_listener w sid (Name (lit ''newListener''))"
  shows "fst (CDPSocket_emit ext w sid (Name event) args) = Return True
       \<and> unhandled (snd (CDPSocket_emit ext w sid (Name event) args)) = unhandled w
       \<and> clients (snd (CDPSocket_emit ext w sid (Name event) args)) = clients w
       \<and> calls (snd (CDPSocket_emit ext w sid (Name event) args)) = calls w"
proof (cases "trailing_callback args")
  case None
  show ?thesis
    by (simp add: emit_no_callback [OF assms(1) None])
next
  case (Some f)
  then obtain rest where args: "args = rest @ [Function f]"
    by (auto simp: trailing_callback_Some)
  with assms(2) have "\<not> has_listener w sid (Name (lit ''newListener''))" by simp
  from emit_callback [OF assms(1) this] show ?thesis
    by (simp add: args update_socket_def)
qed

lemma server_emit_no_socket:
  assumes "cdpSocket (servers w ! r) = None"
  shows "CDPSocketServer_emit ext w r event args = (Return True, w)"
  using assms by (simp add: CDPSocketServer_emit_def)

lemma server_emit_socket:
  assumes "cdpSocket (servers w ! r) = Some sid"
  shows "CDPSocketServer_emit ext w r event args = CDPSocket_emit ext w sid (Name event) args
       \<or> (fst (CDPSocket_emit ext w sid (Name event) args) = Return False
          \<and> CDPSocketServer_emit ext w r event args
              = (Return True, snd (CDPSocket_emit ext w sid (Name event) args)))"
proof (cases "CDPSocket_emit ext w sid (Name event) args")
  case (Pair c w1)
  then show ?thesis
    using assms by (cases c) (auto simp: CDPSocketServer_emit_def)
qed

lemma server_emit_returns_true:
  assumes "0 < stack_depth ext" and "cdpSocket (servers w ! r) = Some sid"
    and "args = [] \<or> (\<forall>f. last args \<noteq> Function f)
         \<or> \<not> has_listener w sid (Name (lit ''newListener''))"
  shows "fst (CDPSocketServer_emit ext w r event args) = Return True
       \<and> unhandled (snd (CDPSocketServer_emit ext w r event args)) = unhandled w"
  using emit_returns_true [OF assms(1,3), of event] server_emit_socket [OF assms(2), of ext event args]
  by auto

text \<open>
  When the promise of \<^verbatim>\<open>encode\<close> resolves, whatever the client then does with the
  \<^verbatim>\<open>Runtime.evaluate\<close> command, rejecting it included, no unhandled rejection appears and
  no function of the caller is called.
\<close>

lemma evaluate_rejection_swallowed:
  assumes "i < length (pending w)" and "pending w ! i = Encoding sid env"
    and "encode ext env (namespace (sockets w ! sid)) = Some encoded"
  shows "unhandled (settle ext w i) = unhandled w \<and> calls (settle ext w i) = calls w"
  using settle_encoding [OF assms] by (simp add: emit_encoded_fields)

lemma attached_world_eq:
  "attached_world =
     \<lparr>servers = [\<lparr>cdpSocket = Some 0, fullNamespace = lit ''/default'', path = [],
                   namespaceMap = [], server_listeners = []\<rparr>],
      sockets = [\<lparr>cdpClient = Some 0, namespace = lit ''/default'', executionContextId = None,
                  listeners = []\<rparr>],
      clients = [\<lparr>handlers = [0],
                  sent = [Runtime_enable, Runtime_addBinding (lit ''cypressSendToServer-/default'')],
                  rejects = (\<lambda>cmd. case cmd of Runtime_evaluate script ctx \<Rightarrow> True | _ \<Rightarrow> False)\<rparr>],
      pending = [], uuid_count = 0, calls = [], unhandled = []\<rparr>"
  by (simp add: attached_world_def CDPSocketServer_attachCDPClient_init_def
      default_registry_world_eq rejecting_client_def CDPSocket_init_def client_send_def
      update_client_def update_server_def CDPSocket_constructor_def bindingName_def
      client_on_def Let_def lit_append [symmetric])

lemma test_stack: "0 < stack_depth test_externals"
  by (simp add: test_externals_def)

lemma rejecting_world_eq:
  "rejecting_world =
     attached_world
       \<lparr>uuid_count := Suc 0,
        pending := [Encoding 0 (lit ''ping'', lit ''ping-uuid0'', [Data number_1, Data number_2])]\<rparr>"
proof -
  have s: "cdpSocket (servers attached_world ! 0) = Some 0"
    and u: "uuid_count attached_world = 0" and p: "pending attached_world = []"
    by (simp_all add: attached_world_eq)
  have t: "trailing_callback [Data number_1, Data number_2] = None"
    by (simp add: trailing_callback_def)
  show ?thesis
    unfolding rejecting_world_def CDPSocketServer_emit_def s
    by (simp add: emit_no_callback [OF test_stack t] u p test_uuid lit_append [symmetric])
qed

text \<open>
  The scenario of a failing transport: the registry's socket holds a client that rejects
  every \<^verbatim>\<open>Runtime.evaluate\<close>; \<^verbatim>\<open>emit("ping", 1, 2)\<close> on the registry returned
  \<^verbatim>\<open>true\<close>, and settling the promise of \<^verbatim>\<open>encode\<close> sends the command, which is
  rejected, and leaves no trace of the rejection.
\<close>

lemma emit_rejected_evaluate:
  "fst (CDPSocketServer_emit test_externals attached_world 0 (lit ''ping'')
          [Data number_1, Data number_2]) = Return True
   \<and> pending rejecting_world ! 0
       = Encoding 0 (lit ''ping'', lit ''ping-uuid0'', [Data number_1, Data number_2])
   \<and> rejects (clients rejecting_world ! 0)
        (Runtime_evaluate
           (expression (lit ''/default'') (escapePayload (JSON_stringify ping_packet))) None)
   \<and> sent (clients (settle test_externals rejecting_world 0) ! 0)
       = [Runtime_enable, Runtime_addBinding (lit ''cypressSendToServer-/default''),
          Runtime_evaluate
            (expression (lit ''/default'') (escapePayload (JSON_stringify ping_packet))) None]
   \<and> unhandled (settle test_externals rejecting_world 0) = []
   \<and> calls (settle test_externals rejecting_world 0) = []"
proof -
  have s: "cdpSocket (servers attached_world ! 0) = Some 0"
    by (simp add: attached_world_eq)
  have t: "[Data number_1, Data number_2] = [] \<or> (\<forall>f. last [Data number_1, Data number_2] \<noteq> Function f)
           \<or> \<not> has_listener attached_world 0 (Name (lit ''newListener''))"
    by simp
  have 1: "fst (CDPSocketServer_emit test_externals attached_world 0 (lit ''ping'')
             [Data number_1, Data number_2]) = Return True"
    using server_emit_returns_true [OF test_stack s t] by simp
  have i: "0 < length (pending rejecting_world)"
    and at: "pending rejecting_world ! 0
       = Encoding 0 (lit ''ping'', lit ''ping-uuid0'', [Data number_1, Data number_2])"
    by (simp_all add: rejecting_world_eq)
  have enc: "encode test_externals (lit ''ping'', lit ''ping-uuid0'', [Data number_1, Data number_2])
               (namespace (sockets rejecting_world ! 0)) = Some ping_packet"
    by (simp add: test_externals_def test_encode_def ping_packet_def)
  have rej: "rejects (clients rejecting_world ! 0)
        (Runtime_evaluate
           (expression (lit ''/default'') (escapePayload (JSON_stringify ping_packet))) None)"
    by (simp add: rejecting_world_eq attached_world_eq)
  have st: "settle test_externals rejecting_world 0
              = CDPSocket_emit_encoded (rejecting_world\<lparr>pending := []\<rparr>) 0 ping_packet"
    using settle_encoding [OF i at enc] by (simp add: rejecting_world_eq)
  have sent: "sent (clients (settle test_externals rejecting_world 0) ! 0)
       = [Runtime_enable, Runtime_addBinding (lit ''cypressSendToServer-/default''),
          Runtime_evaluate
            (expression (lit ''/default'') (escapePayload (JSON_stringify ping_packet))) None]"
    unfolding st
    by (subst emit_encoded_sent [where c = 0]) (simp_all add: rejecting_world_eq attached_world_eq)
  have quiet: "unhandled (settle test_externals rejecting_world 0) = []
               \<and> calls (settle test_externals rejecting_world 0) = []"
    using evaluate_rejection_swallowed [OF i at enc]
    by (simp add: rejecting_world_eq attached_world_eq)
  from 1 at rej sent quiet show ?thesis by (intro conjI) simp_all
qed

lemma announcing_registry_eq:
  "announcing_registry =
     update_socket attached_world 0
       (\<lambda>s. s\<lparr>listeners := [\<lparr>l_event = Name (lit ''newListener''), l_fn = UserFn 9,
                               l_once = False\<rparr>]\<rparr>)"
proof -
  have "\<not> has_listener attached_world 0 (Name (lit ''newListener''))"
    by (simp add: has_listener_def attached_world_eq)
  then show ?thesis
    by (simp add: announcing_registry_def on_plain update_socket_def attached_world_eq)
qed

lemma announcing_registry_listens:
  "has_listener announcing_registry 0 (Name (lit ''newListener''))"
  by (simp add: announcing_registry_eq has_listener_def update_socket_def attached_world_eq)

text \<open>
  C6, at the input where the code leaves the claim. The calling code has registered a
  listener for the emitter's \<^verbatim>\<open>newListener\<close> event on the registry's socket, and calls
  \<^verbatim>\<open>emit("ping", 1, fn)\<close> with a function last, on the socket or on the registry. The
  function is popped and handed to \<^verbatim>\<open>once\<close>, which announces the new listener through
  \<^verbatim>\<open>this.emit('newListener', ...)\<close>; that is the socket's own \<^verbatim>\<open>emit\<close>, which finds a
  function last, pops it and hands it to \<^verbatim>\<open>once\<close>, and so on until the stack is full.
  Whatever the depth of the stack, neither call returns \<^verbatim>\<open>true\<close>: both throw a
  \<^verbatim>\<open>RangeError\<close>, having registered nothing and handed nothing to the codec.
\<close>

theorem emit_overflows_stack:
  "CDPSocket_emit ext announcing_registry 0 (Name (lit ''ping''))
       [Data number_1, Function (UserFn 7)]
     = (Throw RangeError, announcing_registry\<lparr>uuid_count := stack_depth ext\<rparr>)
   \<and> CDPSocketServer_emit ext announcing_registry 0 (lit ''ping'')
       [Data number_1, Function (UserFn 7)]
     = (Throw RangeError, announcing_registry\<lparr>uuid_count := stack_depth ext\<rparr>)"
proof -
  have u: "uuid_count announcing_registry = 0"
    and s: "cdpSocket (servers announcing_registry ! 0) = Some 0"
    by (simp_all add: announcing_registry_eq update_socket_def attached_world_eq)
  have e: "CDPSocket_emit ext announcing_registry 0 (Name (lit ''ping''))
             [Data number_1, Function (UserFn 7)]
           = (Throw RangeError, announcing_registry\<lparr>uuid_count := stack_depth ext\<rparr>)"
    using emit_overflow [OF announcing_registry_listens, of ext "lit ''ping''" "[Data number_1]"
        "UserFn 7"]
    by (simp add: u)
  then show ?thesis
    by (simp add: CDPSocketServer_emit_def s)
qed

text \<open>
  The envelope \<^verbatim>\<open>emit\<close> hands the codec, where it hands one: the event name, the
  acknowledgement id (the event name, a dash, and the uuid drawn by this call), and the
  arguments, all of them when the last is not a function and all but the last when it is.
  Each call draws the next uuid.
\<close>

lemma emit_envelope:
  assumes "0 < stack_depth ext"
  shows "args = [] \<or> (\<forall>f. last args \<noteq> Function f) \<Longrightarrow>
           pending (snd (CDPSocket_emit ext w sid (Name event) args))
             = pending w @
               [Encoding sid (event, event @ lit ''-'' @ randomUUID ext (uuid_count w), args)]
           \<and> uuid_count (snd (CDPSocket_emit ext w sid (Name event) args)) = Suc (uuid_count w)"
    and "\<not> has_listener w sid (Name (lit ''newListener'')) \<Longrightarrow>
           pending (snd (CDPSocket_emit ext w sid (Name event) (rest @ [Function f])))
             = pending w @
               [Encoding sid (event, event @ lit ''-'' @ randomUUID ext (uuid_count w), rest)]
           \<and> uuid_count (snd (CDPSocket_emit ext w sid (Name event) (rest @ [Function f])))
               = Suc (uuid_count w)"
proof -
  show "pending (snd (CDPSocket_emit ext w sid (Name event) args))
             = pending w @
               [Encoding sid (event, event @ lit ''-'' @ randomUUID ext (uuid_count w), args)]
           \<and> uuid_count (snd (CDPSocket_emit ext w sid (Name event) args)) = Suc (uuid_count w)"
    if "args = [] \<or> (\<forall>f. last args \<noteq> Function f)"
  proof -
    from that have "trailing_callback args = None" by (simp add: trailing_callback_None)
    from emit_no_callback [OF assms this] show ?thesis by simp
  qed
  show "pending (snd (CDPSocket_emit ext w sid (Name event) (rest @ [Function f])))
             = pending w @
               [Encoding sid (event, event @ lit ''-'' @ randomUUID ext (uuid_count w), rest)]
           \<and> uuid_count (snd (CDPSocket_emit ext w sid (Name event) (rest @ [Function f])))
               = Suc (uuid_count w)"
    if "\<not> has_listener w sid (Name (lit ''newListener''))"
    using emit_callback [OF assms that] by (simp add: update_socket_def)
qed

text \<open>
  When the socket holds a client and \<^verbatim>\<open>encode\<close> resolves, settling the promise sends
  exactly one \<^verbatim>\<open>Runtime.evaluate\<close>, whose script holds the escaped payload; with a codec
  and parser that invert \<^verbatim>\<open>encode\<close> and \<^verbatim>\<open>JSON.stringify\<close> on it, the payload the page
  reads decodes to the envelope.
\<close>

lemma envelope_delivered:
  assumes i: "i < length (pending w)" and at: "pending w ! i = Encoding sid env"
    and cl: "cdpClient (sockets w ! sid) = Some c" and c: "c < length (clients w)"
    and enc: "encode ext env (namespace (sockets w ! sid)) = Some encoded"
  shows "sent (clients (settle ext w i) ! c)
           = sent (clients w ! c)
             @ [Runtime_evaluate
                  (script_before_literal (namespace (sockets w ! sid))
                     @ escapePayload (JSON_stringify encoded) @ quote # script_after_literal)
                  (executionContextId (sockets w ! sid))]"
    and "pending (settle ext w i) = take i (pending w) @ drop (Suc i) (pending w)"
    and "JSON_parse ext (JSON_stringify encoded) = Some encoded \<Longrightarrow> decode ext encoded = Some env
         \<Longrightarrow> Option.bind
               (Option.bind
                  (map_option fst
                     (readSingleQuoted
                        (escapePayload (JSON_stringify encoded) @ quote # script_after_literal)))
                  (JSON_parse ext))
               (decode ext)
              = Some env"
proof -
  let ?w1 = "w\<lparr>pending := take i (pending w) @ drop (Suc i) (pending w)\<rparr>"
  have s: "settle ext w i = CDPSocket_emit_encoded ?w1 sid encoded"
    by (rule settle_encoding [OF i at enc])
  have cl1: "cdpClient (sockets ?w1 ! sid) = Some c" and c1: "c < length (clients ?w1)"
    using cl c by simp_all
  show "sent (clients (settle ext w i) ! c)
           = sent (clients w ! c)
             @ [Runtime_evaluate
                  (script_before_literal (namespace (sockets w ! sid))
                     @ escapePayload (JSON_stringify encoded) @ quote # script_after_literal)
                  (executionContextId (sockets w ! sid))]"
    unfolding s emit_encoded_sent [OF cl1 c1] by (simp add: expression_split)
  show "pending (settle ext w i) = take i (pending w) @ drop (Suc i) (pending w)"
    unfolding s by (simp add: emit_encoded_fields)
  have "readSingleQuoted (escapePayload (JSON_stringify encoded) @ quote # script_after_literal)
          = Some (JSON_stringify encoded, script_after_literal)"
    using JSON_stringify_terminator_free [of encoded]
    by (simp add: readSingleQuoted_escapePayload terminator_free_def)
  then show "Option.bind
               (Option.bind
                  (map_option fst
                     (readSingleQuoted
                        (escapePayload (JSON_stringify encoded) @ quote # script_after_literal)))
                  (JSON_parse ext))
               (decode ext)
              = Some env"
    if "JSON_parse ext (JSON_stringify encoded) = Some encoded" "decode ext encoded = Some env"
    using that by simp
qed

text \<open>
  The scenario of the specification: \<^verbatim>\<open>emit("ping", 1, 2)\<close> with no callback on the
  socket for \<^verbatim>\<open>/a\<close>. One envelope goes to the codec; settling its promise sends one
  \<^verbatim>\<open>Runtime.evaluate\<close>, and the payload in its script decodes to \<^verbatim>\<open>ping\<close>, the id
  \<^verbatim>\<open>ping-uuid0\<close> and the arguments 1 and 2.
\<close>

lemma emit_envelope_ping:
  "CDPSocket_emit test_externals bridge_world 0 (Name (lit ''ping'')) [Data number_1, Data number_2]
     = (Return True,
        bridge_world\<lparr>uuid_count := Suc 0,
          pending := [Encoding 0 (lit ''ping'', lit ''ping-uuid0'', [Data number_1, Data number_2])]\<rparr>)
   \<and> sent (clients (settle test_externals
                       (snd (CDPSocket_emit test_externals bridge_world 0 (Name (lit ''ping''))
                               [Data number_1, Data number_2])) 0) ! 0)
       = sent (clients bridge_world ! 0)
         @ [Runtime_evaluate
              (script_before_literal (lit ''/a'') @ escapePayload (JSON_stringify ping_packet)
                 @ quote # script_after_literal)
              None]
   \<and> Option.bind
        (Option.bind
           (map_option fst
              (readSingleQuoted
                 (escapePayload (JSON_stringify ping_packet) @ quote # script_after_literal)))
           (JSON_parse test_externals))
        (decode test_externals)
       = Some (lit ''ping'', lit ''ping-uuid0'', [Data number_1, Data number_2])"
proof -
  let ?env = "(lit ''ping'', lit ''ping-uuid0'', [Data number_1, Data number_2])"
  let ?w1 = "bridge_world\<lparr>uuid_count := Suc 0, pending := [Encoding 0 ?env]\<rparr>"
  have t: "trailing_callback [Data number_1, Data number_2] = None"
    by (simp add: trailing_callback_def)
  have e: "CDPSocket_emit test_externals bridge_world 0 (Name (lit ''ping''))
             [Data number_1, Data number_2] = (Return True, ?w1)"
    by (simp add: emit_no_callback [OF test_stack t] bridge_world_eq test_uuid
        lit_append [symmetric])
  have i: "0 < length (pending ?w1)" and at: "pending ?w1 ! 0 = Encoding 0 ?env"
    and cl: "cdpClient (sockets ?w1 ! 0) = Some 0" and c: "0 < length (clients ?w1)"
    by (simp_all add: bridge_world_eq)
  have enc: "encode test_externals ?env (namespace (sockets ?w1 ! 0)) = Some ping_packet"
    by (simp add: test_externals_def test_encode_def ping_packet_def)
  have dec: "decode test_externals ping_packet = Some ?env"
    by (simp add: test_externals_def ping_packet_def number_1_def number_2_def)
  note d = envelope_delivered [OF i at cl c enc]
  have s: "sent (clients (settle test_externals ?w1 0) ! 0)
       = sent (clients bridge_world ! 0)
         @ [Runtime_evaluate
              (script_before_literal (lit ''/a'') @ escapePayload (JSON_stringify ping_packet)
                 @ quote # script_after_literal)
              None]"
    unfolding d(1) by (simp add: bridge_world_eq)
  from e s d(3) [OF test_parse(1) dec] show ?thesis
    by (simp only: snd_conv simp_thms)
qed

lemma announcing_world_eq:
  "announcing_world =
     update_socket bridge_world 0
       (\<lambda>s. s\<lparr>listeners := [\<lparr>l_event = Name (lit ''newListener''), l_fn = UserFn 9,
                               l_once = False\<rparr>]\<rparr>)"
proof -
  have "\<not> has_listener bridge_world 0 (Name (lit ''newListener''))"
    by (simp add: has_listener_def bridge_world_eq)
  then show ?thesis
    by (simp add: announcing_world_def on_plain update_socket_def bridge_world_eq)
qed

lemma announcing_world_listens:
  "has_listener announcing_world 0 (Name (lit ''newListener''))"
  by (simp add: announcing_world_eq has_listener_def update_socket_def bridge_world_eq)

text \<open>
  C5, at the input where the code leaves the claim. On the socket for \<^verbatim>\<open>/a\<close>, after the
  calling code has registered a listener for the emitter's \<^verbatim>\<open>newListener\<close> event,
  \<^verbatim>\<open>emit("ping", 1, fn)\<close> with a function last hands the codec no envelope at all: the
  call never reaches \<^verbatim>\<open>encode\<close>, because \<^verbatim>\<open>once\<close> re-enters \<^verbatim>\<open>emit\<close> until the stack
  is full. Uuids were drawn, one for each nested call; no promise is pending, no listener
  was registered, and the call did not return.
\<close>

theorem emit_hands_nothing:
  "pending (snd (CDPSocket_emit ext announcing_world 0 (Name (lit ''ping''))
                   [Data number_1, Function (UserFn 7)])) = []
   \<and> listeners (sockets (snd (CDPSocket_emit ext announcing_world 0 (Name (lit ''ping''))
                                  [Data number_1, Function (UserFn 7)])) ! 0)
       = [\<lparr>l_event = Name (lit ''newListener''), l_fn = UserFn 9, l_once = False\<rparr>]
   \<and> uuid_count (snd (CDPSocket_emit ext announcing_world 0 (Name (lit ''ping''))
                         [Data number_1, Function (UserFn 7)])) = stack_depth ext
   \<and> fst (CDPSocket_emit ext announcing_world 0 (Name (lit ''ping''))
             [Data number_1, Function (UserFn 7)]) = Throw RangeError"
  using emit_overflow [OF announcing_world_listens, of ext "lit ''ping''" "[Data number_1]"
      "UserFn 7"]
  by (simp add: announcing_world_eq update_socket_def bridge_world_eq)

subsection \<open>Dispatching to listeners\<close>

lemma and_then_and_then:
  "and_then (and_then r (\<lambda>u w. (Return x, w))) (\<lambda>u w. (Return y, w))
     = and_then r (\<lambda>u w. (Return y, w))"
  by (cases r; cases "fst r") (auto simp: and_then_def)

lemma has_listener_remove1:
  assumes "has_listener (update_socket w sid (\<lambda>s. s\<lparr>listeners := remove1 l (listeners s)\<rparr>)) sid ev"
  shows "has_listener w sid ev"
proof (cases "sid < length (sockets w)")
  case True
  with assms have "ev \<in> l_event ` set (remove1 l (listeners (sockets w ! sid)))"
    by (simp add: has_listener_def update_socket_def)
  then have "ev \<in> l_event ` set (listeners (sockets w ! sid))"
    using set_remove1_subset by fastforce
  then show ?thesis by (simp add: has_listener_def)
next
  case False
  then have "(sockets w)[sid := x] = sockets w" for x
    by (simp add: list_update_beyond)
  with assms show ?thesis by (simp add: has_listener_def update_socket_def)
qed

lemma removeListener_plain:
  assumes "\<not> has_listener w sid (Name (lit ''removeListener''))"
  shows "EventEmitter_removeListener this_emit w sid l
           = (Return (), update_socket w sid (\<lambda>s. s\<lparr>listeners := remove1 l (listeners s)\<rparr>))"
  using assms has_listener_remove1 [of w sid l]
  by (auto simp: EventEmitter_removeListener_def Let_def)

lemma call_listener_once:
  assumes "l_once l" and "\<not> has_listener w sid (Name (lit ''removeListener''))"
  shows "call_listener ext sid args w l
           = invoke ext (update_socket w sid (\<lambda>s. s\<lparr>listeners := remove1 l (listeners s)\<rparr>))
               (l_fn l) args"
  using assms by (simp add: call_listener_def removeListener_plain)


lemma invoke_unit: "and_then (invoke ext w f args) (\<lambda>u w1. (Return (), w1)) = invoke ext w f args"
proof (cases "invoke ext w f args")
  case (Pair c w1)
  then show ?thesis by (cases c) simp_all
qed

lemma super_emit_single_once:
  assumes "filter (\<lambda>l. l_event l = Name event) (listeners (sockets w ! sid)) = [l]"
    and "l_once l" and "\<not> has_listener w sid (Name (lit ''removeListener''))"
    and "event \<noteq> lit ''error'' \<or> \<not> has_listener w sid errorMonitor"
  shows "CDPSocket_super_emit ext w sid event args
           = and_then
               (invoke ext (update_socket w sid (\<lambda>s. s\<lparr>listeners := remove1 l (listeners s)\<rparr>))
                  (l_fn l) args)
               (\<lambda>u w1. (Return True, w1))"
proof -
  have "CDPSocket_super_emit ext w sid event args
          = and_then (call_listeners ext sid args w [l]) (\<lambda>u w2. (Return True, w2))"
    using assms(1,4) by (auto simp: CDPSocket_super_emit_def Let_def)
  then show ?thesis
    by (simp add: call_listener_once [OF assms(2,3)] and_then_and_then)
qed


lemma filter_remove1_single:
  assumes "filter P xs = [l]"
  shows "filter P (remove1 l xs) = []"
  using assms
proof (induction xs)
  case Nil
  then show ?case by simp
next
  case (Cons x xs)
  show ?case
  proof (cases "P x")
    case True
    with Cons.prems have "x = l" "filter P xs = []" by simp_all
    then show ?thesis by simp
  next
    case False
    with Cons.prems have rest: "filter P xs = [l]" by simp
    then have "l \<in> set (filter P xs)" by simp
    then have "P l" by simp
    with False have "x \<noteq> l" by auto
    with Cons.IH [OF rest] False show ?thesis by simp
  qed
qed

lemma callbackEvent_not_error: "event @ lit ''-'' @ uuid \<noteq> lit ''error''"
proof
  assume "event @ lit ''-'' @ uuid = lit ''error''"
  then have "set (event @ lit ''-'' @ uuid) = set (lit ''error'')" by simp
  moreover have "0x2D \<in> set (event @ lit ''-'' @ uuid)" by (simp add: lit_def)
  moreover have "0x2D \<notin> set (lit ''error'')" by (simp add: lit_def)
  ultimately show False by simp
qed

subsection \<open>Acknowledgements\<close>

text \<open>
  C2, amended. On a socket with no listener for \<^verbatim>\<open>newListener\<close> and with room on the
  stack for the call, every \<^verbatim>\<open>emit\<close> whose final argument is a function returns
  \<^verbatim>\<open>true\<close>; the envelope handed to the codec carries exactly the arguments before that
  function, exactly one \<^verbatim>\<open>once\<close> listener for it is appended under the acknowledgement
  id drawn by this call, and nothing has been sent to the client when \<^verbatim>\<open>emit\<close> returns:
  the \<^verbatim>\<open>Runtime.evaluate\<close> goes out only when the promise of \<^verbatim>\<open>encode\<close> is settled
  afterwards. When an inbound event under the acknowledgement id is later dispatched, on a
  socket with no listener for \<^verbatim>\<open>removeListener\<close>, the listener is taken off the list
  and called with the acknowledgement's arguments followed by one callback made by
  \<^verbatim>\<open>processCDPRuntimeBinding\<close>; no listener for the id is left.
\<close>

theorem emit_acknowledgement:
  assumes "0 < stack_depth ext" and "\<not> has_listener w sid (Name (lit ''newListener''))"
  shows
  "(let callbackEvent = event @ lit ''-'' @ randomUUID ext (uuid_count w);
        l = \<lparr>l_event = Name callbackEvent, l_fn = f, l_once = True\<rparr>;
        w1 = snd (CDPSocket_emit ext w sid (Name event) (rest @ [Function f]))
    in fst (CDPSocket_emit ext w sid (Name event) (rest @ [Function f])) = Return True
     \<and> pending w1 = pending w @ [Encoding sid (event, callbackEvent, rest)]
     \<and> clients w1 = clients w
     \<and> (sid < length (sockets w) \<longrightarrow>
          listeners (sockets w1 ! sid) = listeners (sockets w ! sid) @ [l])
     \<and> (cdpClient (sockets w ! sid) = Some c \<and> c < length (clients w)
          \<and> encode ext (event, callbackEvent, rest) (namespace (sockets w ! sid)) = Some encoded
        \<longrightarrow> sent (clients (settle ext w1 (length (pending w))) ! c)
              = sent (clients w1 ! c)
                @ [Runtime_evaluate
                     (expression (namespace (sockets w ! sid))
                        (escapePayload (JSON_stringify encoded)))
                     (executionContextId (sockets w ! sid))])
     \<and> (sid < length (sockets w2)
          \<and> filter (\<lambda>x. l_event x = Name callbackEvent) (listeners (sockets w2 ! sid)) = [l]
          \<and> \<not> has_listener w2 sid (Name (lit ''removeListener''))
        \<longrightarrow> CDPSocket_super_emit ext w2 sid callbackEvent (ackArgs @ [Function (AckFn sid ackEvent)])
              = and_then
                  (invoke ext
                     (update_socket w2 sid (\<lambda>s. s\<lparr>listeners := remove1 l (listeners s)\<rparr>))
                     f (ackArgs @ [Function (AckFn sid ackEvent)]))
                  (\<lambda>u w3. (Return True, w3))
          \<and> filter (\<lambda>x. l_event x = Name callbackEvent)
               (listeners (sockets (update_socket w2 sid
                  (\<lambda>s. s\<lparr>listeners := remove1 l (listeners s)\<rparr>)) ! sid)) = []
          \<and> (\<forall>n. f = UserFn n \<longrightarrow>
                calls (CDPSocket_processCDPRuntimeBinding_decoded ext w2 sid
                         (callbackEvent, ackEvent, ackArgs))
                  = calls w2 @ [(n, ackArgs @ [Function (AckFn sid ackEvent)])]
                \<and> listeners (sockets (CDPSocket_processCDPRuntimeBinding_decoded ext w2 sid
                         (callbackEvent, ackEvent, ackArgs)) ! sid)
                  = remove1 l (listeners (sockets w2 ! sid))
                \<and> unhandled (CDPSocket_processCDPRuntimeBinding_decoded ext w2 sid
                         (callbackEvent, ackEvent, ackArgs)) = unhandled w2)))"
proof -
  define callbackEvent where "callbackEvent = event @ lit ''-'' @ randomUUID ext (uuid_count w)"
  define l where "l = \<lparr>l_event = Name callbackEvent, l_fn = f, l_once = True\<rparr>"
  define w1 where "w1 = snd (CDPSocket_emit ext w sid (Name event) (rest @ [Function f]))"
  note e = emit_callback [OF assms, of event rest f, folded callbackEvent_def, folded l_def]
  have r: "fst (CDPSocket_emit ext w sid (Name event) (rest @ [Function f])) = Return True"
    by (simp add: e)
  have p: "pending w1 = pending w @ [Encoding sid (event, callbackEvent, rest)]"
    by (simp add: w1_def e)
  have cl: "clients w1 = clients w"
    by (simp add: w1_def e update_socket_def)
  have ls: "listeners (sockets w1 ! sid) = listeners (sockets w ! sid) @ [l]"
    if "sid < length (sockets w)"
    using that by (simp add: w1_def e update_socket_def)
  have frame: "namespace (sockets w1 ! sid) = namespace (sockets w ! sid)"
    "cdpClient (sockets w1 ! sid) = cdpClient (sockets w ! sid)"
    "executionContextId (sockets w1 ! sid) = executionContextId (sockets w ! sid)"
    by (cases "sid < length (sockets w)";
        simp add: w1_def e update_socket_def list_update_beyond)+
  have ev: "sent (clients (settle ext w1 (length (pending w))) ! c)
              = sent (clients w1 ! c)
                @ [Runtime_evaluate
                     (expression (namespace (sockets w ! sid))
                        (escapePayload (JSON_stringify encoded)))
                     (executionContextId (sockets w ! sid))]"
    if c1: "cdpClient (sockets w ! sid) = Some c" and c2: "c < length (clients w)"
      and enc: "encode ext (event, callbackEvent, rest) (namespace (sockets w ! sid))
              = Some encoded"
  proof -
    let ?i = "length (pending w)"
    have i: "?i < length (pending w1)"
      and at: "pending w1 ! ?i = Encoding sid (event, callbackEvent, rest)"
      by (simp_all add: p)
    have enc1: "encode ext (event, callbackEvent, rest) (namespace (sockets w1 ! sid))
                  = Some encoded"
      using enc by (simp add: frame)
    have cl1: "cdpClient (sockets w1 ! sid) = Some c" and c3: "c < length (clients w1)"
      using c1 c2 by (simp_all add: frame cl)
    from envelope_delivered(1) [OF i at cl1 c3 enc1] show ?thesis
      by (simp add: frame expression_split)
  qed
  have fire: "CDPSocket_super_emit ext w2 sid callbackEvent (ackArgs @ [Function (AckFn sid ackEvent)])
              = and_then
                  (invoke ext
                     (update_socket w2 sid (\<lambda>s. s\<lparr>listeners := remove1 l (listeners s)\<rparr>))
                     f (ackArgs @ [Function (AckFn sid ackEvent)]))
                  (\<lambda>u w3. (Return True, w3))
          \<and> filter (\<lambda>x. l_event x = Name callbackEvent)
               (listeners (sockets (update_socket w2 sid
                  (\<lambda>s. s\<lparr>listeners := remove1 l (listeners s)\<rparr>)) ! sid)) = []
          \<and> (\<forall>n. f = UserFn n \<longrightarrow>
                calls (CDPSocket_processCDPRuntimeBinding_decoded ext w2 sid
                         (callbackEvent, ackEvent, ackArgs))
                  = calls w2 @ [(n, ackArgs @ [Function (AckFn sid ackEvent)])]
                \<and> listeners (sockets (CDPSocket_processCDPRuntimeBinding_decoded ext w2 sid
                         (callbackEvent, ackEvent, ackArgs)) ! sid)
                  = remove1 l (listeners (sockets w2 ! sid))
                \<and> unhandled (CDPSocket_processCDPRuntimeBinding_decoded ext w2 sid
                         (callbackEvent, ackEvent, ackArgs)) = unhandled w2)"
    if sid: "sid < length (sockets w2)"
      and only: "filter (\<lambda>x. l_event x = Name callbackEvent) (listeners (sockets w2 ! sid)) = [l]"
      and quiet: "\<not> has_listener w2 sid (Name (lit ''removeListener''))"
  proof -
    have once: "l_once l" and fn: "l_fn l = f" by (simp_all add: l_def)
    have ne: "callbackEvent \<noteq> lit ''error'' \<or> \<not> has_listener w2 sid errorMonitor"
      by (simp add: callbackEvent_def callbackEvent_not_error)
    have d: "CDPSocket_super_emit ext w2 sid callbackEvent (ackArgs @ [Function (AckFn sid ackEvent)])
              = and_then
                  (invoke ext
                     (update_socket w2 sid (\<lambda>s. s\<lparr>listeners := remove1 l (listeners s)\<rparr>))
                     f (ackArgs @ [Function (AckFn sid ackEvent)]))
                  (\<lambda>u w3. (Return True, w3))"
      using super_emit_single_once [OF only once quiet ne] fn by simp
    have gone: "filter (\<lambda>x. l_event x = Name callbackEvent)
               (listeners (sockets (update_socket w2 sid
                  (\<lambda>s. s\<lparr>listeners := remove1 l (listeners s)\<rparr>)) ! sid)) = []"
      using sid filter_remove1_single [OF only] by (simp add: update_socket_def)
    have user: "calls (CDPSocket_processCDPRuntimeBinding_decoded ext w2 sid
                         (callbackEvent, ackEvent, ackArgs))
                  = calls w2 @ [(n, ackArgs @ [Function (AckFn sid ackEvent)])]
                \<and> listeners (sockets (CDPSocket_processCDPRuntimeBinding_decoded ext w2 sid
                         (callbackEvent, ackEvent, ackArgs)) ! sid)
                  = remove1 l (listeners (sockets w2 ! sid))
                \<and> unhandled (CDPSocket_processCDPRuntimeBinding_decoded ext w2 sid
                         (callbackEvent, ackEvent, ackArgs)) = unhandled w2"
      if "f = UserFn n" for n
      using that sid
      by (simp add: CDPSocket_processCDPRuntimeBinding_decoded_def d invoke_def update_socket_def)
    from d gone user show ?thesis by blast
  qed
  from r p cl ls ev fire show ?thesis
    unfolding Let_def callbackEvent_def [symmetric] l_def [symmetric] w1_def [symmetric]
    by blast
qed

lemma emit_callback_two:
  assumes "0 < stack_depth ext" and "\<not> has_listener w sid (Name (lit ''newListener''))"
  shows "CDPSocket_emit ext w sid (Name ev) [a, Function f]
           = (Return True,
              (update_socket w sid
                 (\<lambda>s. s\<lparr>listeners := listeners s @
                    [\<lparr>l_event = Name (ev @ lit ''-'' @ randomUUID ext (uuid_count w)),
                      l_fn = f, l_once = True\<rparr>]\<rparr>))
              \<lparr>uuid_count := Suc (uuid_count w),
               pending := pending w @
                 [Encoding sid (ev, ev @ lit ''-'' @ randomUUID ext (uuid_count w), [a])]\<rparr>)"
  using emit_callback [OF assms, of ev "[a]" f] by simp

lemma bridge_world_quiet:
  "\<not> has_listener bridge_world 0 ev"
  by (simp add: has_listener_def bridge_world_eq)

lemma ping_emitted_eq:
  "ping_emitted
   = \<lparr>servers = [],
      sockets = [\<lparr>cdpClient = Some 0, namespace = lit ''/a'', executionContextId = None,
                  listeners = [\<lparr>l_event = Name (lit ''ping-uuid0''), l_fn = UserFn 7,
                                l_once = True\<rparr>]\<rparr>,
                 \<lparr>cdpClient = Some 0, namespace = lit ''/b'', executionContextId = None,
                  listeners = []\<rparr>],
      clients = [\<lparr>handlers = [0, 1],
                  sent = [Runtime_enable, Runtime_addBinding (lit ''cypressSendToServer-/a''),
                          Runtime_enable, Runtime_addBinding (lit ''cypressSendToServer-/b'')],
                  rejects = (\<lambda>cmd. False)\<rparr>],
      pending = [Encoding 0 (lit ''ping'', lit ''ping-uuid0'', [Data number_1])],
      uuid_count = Suc 0, calls = [], unhandled = []\<rparr>"
  unfolding ping_emitted_def emit_callback_two [OF test_stack bridge_world_quiet]
  by (simp add: bridge_world_eq update_socket_def test_uuid lit_append [symmetric])

lemma ack_delivered_eq:
  "ack_delivered
   = \<lparr>servers = [],
      sockets = [\<lparr>cdpClient = Some 0, namespace = lit ''/a'', executionContextId = Some 4,
                  listeners = [\<lparr>l_event = Name (lit ''ping-uuid0''), l_fn = UserFn 7,
                                l_once = True\<rparr>]\<rparr>,
                 \<lparr>cdpClient = Some 0, namespace = lit ''/b'', executionContextId = None,
                  listeners = []\<rparr>],
      clients = [\<lparr>handlers = [0, 1],
                  sent = [Runtime_enable, Runtime_addBinding (lit ''cypressSendToServer-/a''),
                          Runtime_enable, Runtime_addBinding (lit ''cypressSendToServer-/b'')],
                  rejects = (\<lambda>cmd. False)\<rparr>],
      pending = [Encoding 0 (lit ''ping'', lit ''ping-uuid0'', [Data number_1]),
                 Decoding 0 ack_packet],
      uuid_count = Suc 0, calls = [], unhandled = []\<rparr>"
  by (simp add: ack_delivered_def ping_emitted_eq client_notify_def
      CDPSocket_processCDPRuntimeBinding_def ack_invocation_def bindingName_def update_socket_def
      test_parse Let_def lit_append [symmetric])

lemma ack_decoded:
  "decode test_externals ack_packet
     = Some (lit ''ping-uuid0'', lit ''ping-uuid0-ackid456'', [Data (JStr (lit ''ok''))])"
  by (simp add: test_externals_def ack_packet_def)

lemma ack_world_eq:
  "ack_world
     = CDPSocket_processCDPRuntimeBinding_decoded test_externals
         (ack_delivered\<lparr>pending := take 1 (pending ack_delivered)
                                       @ drop (Suc 1) (pending ack_delivered)\<rparr>) 0
         (lit ''ping-uuid0'', lit ''ping-uuid0-ackid456'', [Data (JStr (lit ''ok''))])"
  unfolding ack_world_def
  by (rule settle_decoding [OF _ _ ack_decoded]) (simp_all add: ack_delivered_eq)

lemma watching_world_eq:
  "watching_world =
     update_socket bridge_world 0
       (\<lambda>s. s\<lparr>listeners := [\<lparr>l_event = Name (lit ''removeListener''), l_fn = UserFn 8,
                               l_once = False\<rparr>]\<rparr>)"
  unfolding watching_world_def on_plain(1) [OF bridge_world_quiet]
  by (simp add: update_socket_def bridge_world_eq)

lemma watched_ack_world_eq:
  "listeners (sockets watched_ack_world ! 0)
     = [\<lparr>l_event = Name (lit ''removeListener''), l_fn = UserFn 8, l_once = False\<rparr>,
        \<lparr>l_event = Name (lit ''removeListener-uuid1''), l_fn = UserFn 7, l_once = True\<rparr>]"
  "pending watched_ack_world
     = [Encoding 0 (lit ''ping'', lit ''ping-uuid0'', [Data number_1]),
        Encoding 0 (lit ''removeListener'', lit ''removeListener-uuid1'',
                    [Data (JStr (lit ''ping-uuid0''))])]"
  "calls watched_ack_world
     = [(7, [Data (JStr (lit ''ok'')), Function (AckFn 0 (lit ''ping-uuid0-ackid456''))])]"
proof -
  let ?l = "\<lparr>l_event = Name (lit ''ping-uuid0''), l_fn = UserFn 7, l_once = True\<rparr>"
  let ?r = "\<lparr>l_event = Name (lit ''removeListener''), l_fn = UserFn 8, l_once = False\<rparr>"
  let ?b = "\<lparr>cdpClient = Some 0, namespace = lit ''/b'', executionContextId = None,
             listeners = []\<rparr>"
  let ?c = "\<lparr>handlers = [0, 1],
             sent = [Runtime_enable, Runtime_addBinding (lit ''cypressSendToServer-/a''),
                     Runtime_enable, Runtime_addBinding (lit ''cypressSendToServer-/b'')],
             rejects = (\<lambda>cmd. False)\<rparr>"
  let ?p = "Encoding 0 (lit ''ping'', lit ''ping-uuid0'', [Data number_1])"
  define w1 where "w1 = snd (CDPSocket_emit test_externals watching_world 0 (Name (lit ''ping''))
                               [Data number_1, Function (UserFn 7)])"
  have q: "\<not> has_listener watching_world 0 (Name (lit ''newListener''))"
    by (simp add: watching_world_eq has_listener_def update_socket_def bridge_world_eq)
  have w1: "w1 = \<lparr>servers = [],
      sockets = [\<lparr>cdpClient = Some 0, namespace = lit ''/a'', executionContextId = None,
                  listeners = [?r, ?l]\<rparr>, ?b],
      clients = [?c], pending = [?p], uuid_count = Suc 0, calls = [], unhandled = []\<rparr>"
    unfolding w1_def emit_callback_two [OF test_stack q]
    by (simp add: watching_world_eq bridge_world_eq update_socket_def test_uuid
        lit_append [symmetric])
  define w2 where "w2 = client_notify test_externals w1 0 ack_invocation"
  have w2: "w2 = \<lparr>servers = [],
      sockets = [\<lparr>cdpClient = Some 0, namespace = lit ''/a'', executionContextId = Some 4,
                  listeners = [?r, ?l]\<rparr>, ?b],
      clients = [?c], pending = [?p, Decoding 0 ack_packet], uuid_count = Suc 0, calls = [],
      unhandled = []\<rparr>"
    by (simp add: w2_def w1 client_notify_def CDPSocket_processCDPRuntimeBinding_def
        ack_invocation_def bindingName_def update_socket_def test_parse Let_def
        lit_append [symmetric])
  let ?c' = "\<lparr>handlers = [0, Suc 0],
             sent = [Runtime_enable, Runtime_addBinding (lit ''cypressSendToServer-/a''),
                     Runtime_enable, Runtime_addBinding (lit ''cypressSendToServer-/b'')],
             rejects = (\<lambda>cmd. False)\<rparr>"
  let ?w3 = "\<lparr>servers = [],
      sockets = [\<lparr>cdpClient = Some 0, namespace = lit ''/a'', executionContextId = Some 4,
                  listeners = [?r]\<rparr>, ?b],
      clients = [?c'], pending = [?p], uuid_count = Suc 0, calls = [], unhandled = []\<rparr>"
  have q3: "\<not> has_listener ?w3 0 (Name (lit ''newListener''))"
    by (simp add: has_listener_def)
  have e3: "CDPSocket_emit test_externals ?w3 0 (Name (lit ''removeListener''))
              [Data (JStr (lit ''ping-uuid0'')), Function (UserFn 7)]
            = (Return True,
               ?w3\<lparr>sockets := [\<lparr>cdpClient = Some 0, namespace = lit ''/a'',
                                 executionContextId = Some 4,
                                 listeners = [?r, \<lparr>l_event = Name (lit ''removeListener-uuid1''),
                                                   l_fn = UserFn 7, l_once = True\<rparr>]\<rparr>, ?b],
                  uuid_count := Suc (Suc 0),
                  pending := [?p, Encoding 0 (lit ''removeListener'', lit ''removeListener-uuid1'',
                                              [Data (JStr (lit ''ping-uuid0''))])]\<rparr>)"
    unfolding emit_callback_two [OF test_stack q3]
    by (simp add: update_socket_def test_uuid lit_append [symmetric])
  have "watched_ack_world = settle test_externals w2 1"
    by (simp add: watched_ack_world_def w2_def w1_def)
  also have "\<dots> = CDPSocket_processCDPRuntimeBinding_decoded test_externals
                      (w2\<lparr>pending := [?p]\<rparr>) 0
                      (lit ''ping-uuid0'', lit ''ping-uuid0-ackid456'', [Data (JStr (lit ''ok''))])"
    using settle_decoding [OF _ _ ack_decoded, of 1 w2 0] by (simp add: w2)
  also have "\<dots> = (snd (CDPSocket_emit test_externals ?w3 0 (Name (lit ''removeListener''))
                            [Data (JStr (lit ''ping-uuid0'')), Function (UserFn 7)]))
                    \<lparr>calls := [(7, [Data (JStr (lit ''ok'')),
                                     Function (AckFn 0 (lit ''ping-uuid0-ackid456''))])]\<rparr>"
    by (simp add: CDPSocket_processCDPRuntimeBinding_decoded_def CDPSocket_super_emit_def
        call_listener_def EventEmitter_removeListener_def has_listener_def w2 update_socket_def
        e3 invoke_def Let_def)
  finally have eq: "watched_ack_world
      = (snd (CDPSocket_emit test_externals ?w3 0 (Name (lit ''removeListener''))
                [Data (JStr (lit ''ping-uuid0'')), Function (UserFn 7)]))
        \<lparr>calls := [(7, [Data (JStr (lit ''ok'')),
                         Function (AckFn 0 (lit ''ping-uuid0-ackid456''))])]\<rparr>" .
  show "listeners (sockets watched_ack_world ! 0)
     = [\<lparr>l_event = Name (lit ''removeListener''), l_fn = UserFn 8, l_once = False\<rparr>,
        \<lparr>l_event = Name (lit ''removeListener-uuid1''), l_fn = UserFn 7, l_once = True\<rparr>]"
    by (simp add: eq e3)
  show "pending watched_ack_world
     = [Encoding 0 (lit ''ping'', lit ''ping-uuid0'', [Data number_1]),
        Encoding 0 (lit ''removeListener'', lit ''removeListener-uuid1'',
                    [Data (JStr (lit ''ping-uuid0''))])]"
    by (simp add: eq e3)
  show "calls watched_ack_world
     = [(7, [Data (JStr (lit ''ok'')), Function (AckFn 0 (lit ''ping-uuid0-ackid456''))])]"
    by (simp add: eq)
qed

text \<open>
  C2, as stated, at four inputs. At the round trip above the claim has the listener called
  with exactly the acknowledgement's arguments, here the one value \<^verbatim>\<open>ok\<close>; the code
  calls it with \<^verbatim>\<open>ok\<close> and a callback of its own making after it, because
  \<^verbatim>\<open>processCDPRuntimeBinding\<close> appends one to every event it dispatches. At
  \<^verbatim>\<open>emit("ping", fn, fn)\<close> the claim has the function absent from what is encoded; the
  envelope still carries it, as the argument before the one that was popped. On a socket
  that listens for \<^verbatim>\<open>newListener\<close>, \<^verbatim>\<open>emit("ping", 1, fn)\<close> registers no listener and
  throws. On a socket that listens for \<^verbatim>\<open>removeListener\<close>, after the acknowledgement
  has fired the function is registered again, under another event name, and the removal
  was sent to the page as an event.
\<close>

theorem acknowledgement_arguments_counterexample:
  "calls ack_world \<noteq> [(7, [Data (JStr (lit ''ok''))])]
   \<and> calls ack_world
       = [(7, [Data (JStr (lit ''ok'')), Function (AckFn 0 (lit ''ping-uuid0-ackid456''))])]
   \<and> pending (snd (CDPSocket_emit test_externals bridge_world 0 (Name (lit ''ping''))
                      [Function (UserFn 7), Function (UserFn 7)]))
       = [Encoding 0 (lit ''ping'', lit ''ping-uuid0'', [Function (UserFn 7)])]
   \<and> CDPSocket_emit test_externals announcing_world 0 (Name (lit ''ping''))
        [Data number_1, Function (UserFn 7)]
       = (Throw RangeError, announcing_world\<lparr>uuid_count := 10000\<rparr>)
   \<and> listeners (sockets watched_ack_world ! 0)
       = [\<lparr>l_event = Name (lit ''removeListener''), l_fn = UserFn 8, l_once = False\<rparr>,
          \<lparr>l_event = Name (lit ''removeListener-uuid1''), l_fn = UserFn 7, l_once = True\<rparr>]
   \<and> pending watched_ack_world
       = [Encoding 0 (lit ''ping'', lit ''ping-uuid0'', [Data number_1]),
          Encoding 0 (lit ''removeListener'', lit ''removeListener-uuid1'',
                      [Data (JStr (lit ''ping-uuid0''))])]"
proof -
  have a: "calls ack_world
       = [(7, [Data (JStr (lit ''ok'')), Function (AckFn 0 (lit ''ping-uuid0-ackid456''))])]"
    unfolding ack_world_eq
    by (simp add: CDPSocket_processCDPRuntimeBinding_decoded_def CDPSocket_super_emit_def
        call_listener_def EventEmitter_removeListener_def has_listener_def invoke_def
        update_socket_def ack_delivered_eq Let_def)
  have b: "pending (snd (CDPSocket_emit test_externals bridge_world 0 (Name (lit ''ping''))
                      [Function (UserFn 7), Function (UserFn 7)]))
       = [Encoding 0 (lit ''ping'', lit ''ping-uuid0'', [Function (UserFn 7)])]"
    unfolding emit_callback_two [OF test_stack bridge_world_quiet]
    by (simp add: bridge_world_eq update_socket_def test_uuid lit_append [symmetric])
  have c: "CDPSocket_emit test_externals announcing_world 0 (Name (lit ''ping''))
        [Data number_1, Function (UserFn 7)]
       = (Throw RangeError, announcing_world\<lparr>uuid_count := 10000\<rparr>)"
    using emit_overflow [OF announcing_world_listens, of test_externals "lit ''ping''"
        "[Data number_1]" "UserFn 7"]
    by (simp add: announcing_world_eq update_socket_def bridge_world_eq test_externals_def)
  from a b c watched_ack_world_eq(1,2) show ?thesis
    by (intro conjI) simp_all
qed

theorem emit_acknowledgement_witness:
  "0 < stack_depth test_externals
   \<and> \<not> has_listener bridge_world 0 (Name (lit ''newListener''))
   \<and> 0 < length (sockets bridge_world)
   \<and> cdpClient (sockets bridge_world ! 0) = Some 0 \<and> 0 < length (clients bridge_world)
   \<and> encode test_externals (lit ''ping'', lit ''ping-uuid0'', [Data number_1]) (lit ''/a'')
        = Some (JArr [JStr (lit ''ping''), JStr (lit ''ping-uuid0''), JArr [number_1]])
   \<and> fst (CDPSocket_emit test_externals bridge_world 0 (Name (lit ''ping''))
             [Data number_1, Function (UserFn 7)]) = Return True
   \<and> pending ping_emitted = [Encoding 0 (lit ''ping'', lit ''ping-uuid0'', [Data number_1])]
   \<and> listeners (sockets ping_emitted ! 0)
        = [\<lparr>l_event = Name (lit ''ping-uuid0''), l_fn = UserFn 7, l_once = True\<rparr>]
   \<and> sent (clients ping_emitted ! 0) = sent (clients bridge_world ! 0)
   \<and> sent (clients (settle test_externals ping_emitted 0) ! 0)
        = sent (clients bridge_world ! 0)
          @ [Runtime_evaluate
               (expression (lit ''/a'')
                  (escapePayload
                     (JSON_stringify
                        (JArr [JStr (lit ''ping''), JStr (lit ''ping-uuid0''), JArr [number_1]]))))
               None]
   \<and> filter (\<lambda>x. l_event x = Name (lit ''ping-uuid0'')) (listeners (sockets ack_delivered ! 0))
        = [\<lparr>l_event = Name (lit ''ping-uuid0''), l_fn = UserFn 7, l_once = True\<rparr>]
   \<and> \<not> has_listener ack_delivered 0 (Name (lit ''removeListener''))
   \<and> calls ack_world
        = [(7, [Data (JStr (lit ''ok'')), Function (AckFn 0 (lit ''ping-uuid0-ackid456''))])]
   \<and> listeners (sockets ack_world ! 0) = []
   \<and> unhandled ack_world = []"
proof -
  let ?l = "\<lparr>l_event = Name (lit ''ping-uuid0''), l_fn = UserFn 7, l_once = True\<rparr>"
  let ?enc = "JArr [JStr (lit ''ping''), JStr (lit ''ping-uuid0''), JArr [number_1]]"
  let ?w2 = "ack_delivered\<lparr>pending := take 1 (pending ack_delivered)
                                       @ drop (Suc 1) (pending ack_delivered)\<rparr>"
  have bw: "0 < length (sockets bridge_world)" "cdpClient (sockets bridge_world ! 0) = Some 0"
    "0 < length (clients bridge_world)" "namespace (sockets bridge_world ! 0) = lit ''/a''"
    "pending bridge_world = []" "uuid_count bridge_world = 0"
    "executionContextId (sockets bridge_world ! 0) = None"
    "listeners (sockets bridge_world ! 0) = []"
    by (simp_all add: bridge_world_eq)
  have id: "lit ''ping'' @ lit ''-'' @ randomUUID test_externals 0 = lit ''ping-uuid0''"
    by (simp add: test_uuid lit_append [symmetric])
  have enc: "encode test_externals (lit ''ping'', lit ''ping-uuid0'', [Data number_1]) (lit ''/a'')
               = Some ?enc"
    by (simp add: test_externals_def test_encode_def)
  have w2: "0 < length (sockets ?w2)"
    "filter (\<lambda>x. l_event x = Name (lit ''ping-uuid0'')) (listeners (sockets ?w2 ! 0)) = [?l]"
    "calls ?w2 = []" "listeners (sockets ?w2 ! 0) = [?l]" "unhandled ?w2 = []"
    "\<not> has_listener ?w2 0 (Name (lit ''removeListener''))"
    by (simp_all add: ack_delivered_eq has_listener_def)
  have f: "filter (\<lambda>x. l_event x = Name (lit ''ping-uuid0'')) (listeners (sockets ack_delivered ! 0))
             = [?l]"
    and q: "\<not> has_listener ack_delivered 0 (Name (lit ''removeListener''))"
    by (simp_all add: ack_delivered_eq has_listener_def)
  have pe: "snd (CDPSocket_emit test_externals bridge_world 0 (Name (lit ''ping''))
                   ([Data number_1] @ [Function (UserFn 7)])) = ping_emitted"
    by (simp add: ping_emitted_def)
  note res = emit_acknowledgement [OF test_stack bridge_world_quiet,
      where event = "lit ''ping''" and f = "UserFn 7" and rest = "[Data number_1]" and c = 0
        and encoded = ?enc and ?w2.0 = ?w2 and ackEvent = "lit ''ping-uuid0-ackid456''"
        and ackArgs = "[Data (JStr (lit ''ok''))]",
      unfolded Let_def id pe bw]
  from res have r: "fst (CDPSocket_emit test_externals bridge_world 0 (Name (lit ''ping''))
                           ([Data number_1] @ [Function (UserFn 7)])) = Return True"
    by blast
  from res have p: "pending ping_emitted
                      = [] @ [Encoding 0 (lit ''ping'', lit ''ping-uuid0'', [Data number_1])]"
    by blast
  from res have c: "clients ping_emitted = clients bridge_world"
    by blast
  from res bw(1) have l: "listeners (sockets ping_emitted ! 0) = [] @ [?l]"
    by blast
  from res enc have s: "sent (clients (settle test_externals ping_emitted (length ([] :: pending_promise list))) ! 0)
        = sent (clients ping_emitted ! 0)
          @ [Runtime_evaluate (expression (lit ''/a'') (escapePayload (JSON_stringify ?enc))) None]"
    using bw(3) by blast
  from res w2(1,2,6) have fire:
    "calls (CDPSocket_processCDPRuntimeBinding_decoded test_externals ?w2 0
              (lit ''ping-uuid0'', lit ''ping-uuid0-ackid456'', [Data (JStr (lit ''ok''))]))
       = calls ?w2 @ [(7, [Data (JStr (lit ''ok''))] @ [Function (AckFn 0 (lit ''ping-uuid0-ackid456''))])]"
    "listeners (sockets (CDPSocket_processCDPRuntimeBinding_decoded test_externals ?w2 0
              (lit ''ping-uuid0'', lit ''ping-uuid0-ackid456'', [Data (JStr (lit ''ok''))])) ! 0)
       = remove1 ?l (listeners (sockets ?w2 ! 0))"
    "unhandled (CDPSocket_processCDPRuntimeBinding_decoded test_externals ?w2 0
              (lit ''ping-uuid0'', lit ''ping-uuid0-ackid456'', [Data (JStr (lit ''ok''))]))
       = unhandled ?w2"
    by blast+
  have calls: "calls ack_world
      = [(7, [Data (JStr (lit ''ok'')), Function (AckFn 0 (lit ''ping-uuid0-ackid456''))])]"
    unfolding ack_world_eq fire(1) w2(3) by simp
  have gone: "listeners (sockets ack_world ! 0) = []"
    unfolding ack_world_eq fire(2) w2(4) by simp
  have un: "unhandled ack_world = []"
    unfolding ack_world_eq fire(3) w2(5) by simp
  from test_stack bridge_world_quiet bw(1,2,3) enc r p l s f q calls gone un show ?thesis
    unfolding c by (intro conjI) simp_all
qed

subsection \<open>Inbound dispatch and the callback\<close>






lemma listening_world_eq:
  "listening_world =
     \<lparr>servers = [],
      sockets = [\<lparr>cdpClient = Some 0, namespace = lit ''/a'', executionContextId = None,
                  listeners = [\<lparr>l_event = Name (lit ''greet''), l_fn = UserFn 5,
                                l_once = False\<rparr>]\<rparr>,
                 \<lparr>cdpClient = Some 0, namespace = lit ''/b'', executionContextId = None,
                  listeners = []\<rparr>],
      clients = [\<lparr>handlers = [0, 1],
                  sent = [Runtime_enable, Runtime_addBinding (lit ''cypressSendToServer-/a''),
                          Runtime_enable, Runtime_addBinding (lit ''cypressSendToServer-/b'')],
                  rejects = (\<lambda>cmd. False)\<rparr>],
      pending = [], uuid_count = 0, calls = [], unhandled = []\<rparr>"
  unfolding listening_world_def on_plain(1) [OF bridge_world_quiet]
  by (simp add: bridge_world_eq update_socket_def)







subsection \<open>Closing a socket\<close>

lemma count_list_remove1:
  assumes "count_list xs x \<le> 1"
  shows "x \<notin> set (remove1 x xs)"
  using assms
proof (induction xs)
  case Nil
  show ?case by simp
next
  case (Cons y ys)
  show ?case
  proof (cases "y = x")
    case True
    with Cons.prems have "count_list ys x = 0" by simp
    then have "x \<notin> set ys" by (simp add: count_list_0_iff)
    with True show ?thesis by simp
  next
    case False
    with Cons show ?thesis by simp
  qed
qed

lemma client_off_removes:
  assumes "count_list hs h \<le> 1"
  shows "h \<notin> set (client_off hs h)"
proof -
  from assms have "count_list (rev hs) h \<le> 1" by simp
  then have "h \<notin> set (remove1 h (rev hs))" by (rule count_list_remove1)
  then show ?thesis by (simp add: client_off_def)
qed

lemma subscribed_onceD:
  assumes "subscribed_once w sid" and "c < length (clients w)"
  shows "count_list (handlers (clients w ! c)) sid
           \<le> (if cdpClient (sockets w ! sid) = Some c then 1 else 0)"
  using assms by (simp add: subscribed_once_def list_all_iff)

lemma close_fields:
  "pending (CDPSocket_close w sid) = pending w"
  "calls (CDPSocket_close w sid) = calls w"
  "unhandled (CDPSocket_close w sid) = unhandled w"
  "servers (CDPSocket_close w sid) = servers w"
  "length (clients (CDPSocket_close w sid)) = length (clients w)"
  "sockets (CDPSocket_close w sid) = (sockets w)[sid := (sockets w ! sid)\<lparr>cdpClient := None\<rparr>]"
  by (simp_all add: CDPSocket_close_def update_socket_def update_client_def Let_def
      split: option.splits)

lemma close_handlers:
  assumes "subscribed_once w sid" and "c < length (clients w)"
  shows "sid \<notin> set (handlers (clients (CDPSocket_close w sid) ! c))"
proof (cases "cdpClient (sockets w ! sid) = Some c")
  case True
  with subscribed_onceD [OF assms] have "count_list (handlers (clients w ! c)) sid \<le> 1" by simp
  then have "sid \<notin> set (client_off (handlers (clients w ! c)) sid)" by (rule client_off_removes)
  with True assms(2) show ?thesis
    by (simp add: CDPSocket_close_def update_socket_def update_client_def Let_def)
next
  case False
  with subscribed_onceD [OF assms] have "count_list (handlers (clients w ! c)) sid = 0" by simp
  then have "sid \<notin> set (handlers (clients w ! c))" by (simp add: count_list_0_iff)
  with False assms(2) show ?thesis
    by (cases "cdpClient (sockets w ! sid)")
       (auto simp: CDPSocket_close_def update_socket_def update_client_def Let_def
          nth_list_update)
qed

text \<open>
  C4, amended. After \<^verbatim>\<open>close\<close> on a socket that is subscribed the way the constructor
  subscribes it (as every socket of a reachable world is), \<^verbatim>\<open>connected\<close> is false, no
  client has the socket's handler among its subscriptions, and a notification any client delivers afterwards leaves the socket as it
  is and starts no promise for it, so nothing is dispatched. \<^verbatim>\<open>disconnect\<close> is
  \<^verbatim>\<open>close\<close>, and \<^verbatim>\<open>connected\<close> is true exactly when the socket holds a client. The
  socket's listeners are as they were before \<^verbatim>\<open>close\<close>.
\<close>

theorem close_unsubscribes:
  assumes "sid < length (sockets w)" and "subscribed_once w sid"
  shows "\<not> CDPSocket_connected (CDPSocket_close w sid) sid
       \<and> CDPSocket_disconnect w sid = CDPSocket_close w sid
       \<and> CDPSocket_connected w sid = (cdpClient (sockets w ! sid) \<noteq> None)
       \<and> listeners (sockets (CDPSocket_close w sid) ! sid) = listeners (sockets w ! sid)
       \<and> (\<forall>c < length (clients w).
             sid \<notin> set (handlers (clients (CDPSocket_close w sid) ! c))
             \<and> (\<forall>ev. sockets (client_notify ext (CDPSocket_close w sid) c ev) ! sid
                        = sockets (CDPSocket_close w sid) ! sid
                      \<and> pending_of (client_notify ext (CDPSocket_close w sid) c ev) sid
                        = pending_of w sid))"
proof -
  have 1: "\<not> CDPSocket_connected (CDPSocket_close w sid) sid"
    using assms(1) by (simp add: CDPSocket_connected_def close_fields)
  have 2: "CDPSocket_disconnect w sid = CDPSocket_close w sid"
    by (simp add: CDPSocket_disconnect_def)
  have 3: "CDPSocket_connected w sid = (cdpClient (sockets w ! sid) \<noteq> None)"
    by (simp add: CDPSocket_connected_def)
  have 4: "listeners (sockets (CDPSocket_close w sid) ! sid) = listeners (sockets w ! sid)"
    using assms(1) by (simp add: close_fields)
  have 5: "sid \<notin> set (handlers (clients (CDPSocket_close w sid) ! c))
             \<and> (\<forall>ev. sockets (client_notify ext (CDPSocket_close w sid) c ev) ! sid
                        = sockets (CDPSocket_close w sid) ! sid
                      \<and> pending_of (client_notify ext (CDPSocket_close w sid) c ev) sid
                        = pending_of w sid)"
    if c: "c < length (clients w)" for c
  proof -
    have h: "sid \<notin> set (handlers (clients (CDPSocket_close w sid) ! c))"
      by (rule close_handlers [OF assms(2) c])
    have "pending_of (CDPSocket_close w sid) sid = pending_of w sid"
      by (simp add: pending_of_def close_fields)
    with client_notify_frame [of sid "CDPSocket_close w sid" c _ ext] h show ?thesis by simp
  qed
  from 1 2 3 4 5 show ?thesis by blast
qed

text \<open>
  C4, as stated, on a socket that has a listener. The claim has \<^verbatim>\<open>close\<close> clear the
  socket's listeners; the listener registered before is still there afterwards.
\<close>

theorem close_listeners_counterexample:
  "listeners (sockets (CDPSocket_close listening_world 0) ! 0) \<noteq> []
   \<and> listeners (sockets (CDPSocket_close listening_world 0) ! 0)
       = [\<lparr>l_event = Name (lit ''greet''), l_fn = UserFn 5, l_once = False\<rparr>]"
  by (simp add: listening_world_eq CDPSocket_close_def update_socket_def update_client_def
      client_off_def Let_def)

theorem close_unsubscribes_witness:
  "0 < length (sockets listening_world) \<and> subscribed_once listening_world 0
   \<and> CDPSocket_connected listening_world 0
   \<and> \<not> CDPSocket_connected (CDPSocket_close listening_world 0) 0
   \<and> 0 < length (clients listening_world)
   \<and> handlers (clients listening_world ! 0) = [0, 1]
   \<and> handlers (clients (CDPSocket_close listening_world 0) ! 0) = [1]
   \<and> bc_name invocation_for_a = bindingName (namespace (sockets listening_world ! 0))
   \<and> pending_of (client_notify test_externals (CDPSocket_close listening_world 0) 0 invocation_for_a) 0
       = []
   \<and> pending_of (client_notify test_externals listening_world 0 invocation_for_a) 0
       = [Decoding 0 greet_packet]"
proof -
  have lw: "0 < length (sockets listening_world)" "0 < length (clients listening_world)"
    "handlers (clients listening_world ! 0) = [0, 1]"
    "pending_of listening_world 0 = []"
    "cdpClient (sockets listening_world ! 0) = Some 0"
    by (simp_all add: listening_world_eq pending_of_def)
  have so: "subscribed_once listening_world 0"
    by (simp add: subscribed_once_def listening_world_eq)
  have nm: "bc_name invocation_for_a = bindingName (namespace (sockets listening_world ! 0))"
    by (simp add: listening_world_eq invocation_for_a_def bindingName_def lit_append [symmetric])
  note res = close_unsubscribes [OF lw(1) so, of test_externals]
  from res have nc: "\<not> CDPSocket_connected (CDPSocket_close listening_world 0) 0"
    by blast
  from res have "CDPSocket_connected listening_world 0
                   = (cdpClient (sockets listening_world ! 0) \<noteq> None)"
    by blast
  with lw(5) have con: "CDPSocket_connected listening_world 0" by simp
  from res lw(2) have quiet:
    "pending_of (client_notify test_externals (CDPSocket_close listening_world 0) 0 invocation_for_a) 0
       = pending_of listening_world 0"
    by blast
  have hs: "handlers (clients (CDPSocket_close listening_world 0) ! 0) = [1]"
    by (simp add: listening_world_eq CDPSocket_close_def update_socket_def update_client_def
        client_off_def Let_def)
  have before: "pending_of (client_notify test_externals listening_world 0 invocation_for_a) 0
       = [Decoding 0 greet_packet]"
    by (simp add: listening_world_eq client_notify_def CDPSocket_processCDPRuntimeBinding_def
        invocation_for_a_def bindingName_def update_socket_def test_parse Let_def pending_of_def
        lit_append [symmetric])
  from lw(1) so con nc lw(2,3) hs nm quiet [unfolded lw(4)] before show ?thesis
    by (intro conjI)
qed

subsection \<open>Where the invariants come from\<close>

text \<open>
  The conditions the properties above lean on, \<open>registry_ok\<close> and \<open>subscribed_once\<close>,
  hold in every world the program reaches (\<open>reachable_world_ok\<close> at the end): the empty
  world is sound, the constructors and \<^verbatim>\<open>of\<close> keep the registry sound, the socket
  constructor subscribes the new socket exactly once on its own client, \<^verbatim>\<open>close\<close> only
  takes subscriptions away, and every other step, whether it returns or throws, leaves
  subscriptions and servers alone.
\<close>

lemma subscribed_once_iff:
  "subscribed_once w sid \<longleftrightarrow>
     (\<forall>c < length (clients w). count_list (handlers (clients w ! c)) sid
                      \<le> (if cdpClient (sockets w ! sid) = Some c then 1 else 0))"
  by (auto simp: subscribed_once_def list_all_iff)

lemma handlers_okD:
  assumes "handlers_ok w" and "c < length (clients w)" and "h \<in> set (handlers (clients w ! c))"
  shows "h < length (sockets w)"
proof -
  have "clients w ! c \<in> set (clients w)" using assms(2) by simp
  with assms(1,3) show ?thesis by (auto simp: handlers_ok_def list_all_iff)
qed

lemma constructor_fields:
  "fst (CDPSocket_constructor w c ns) = length (sockets w)"
  "sockets (snd (CDPSocket_constructor w c ns))
     = sockets w @ [\<lparr>cdpClient = Some c, namespace = ns, executionContextId = None, listeners = []\<rparr>]"
  "clients (snd (CDPSocket_constructor w c ns))
     = (clients w)[c := (clients w ! c)\<lparr>handlers := handlers (clients w ! c) @ [length (sockets w)]\<rparr>]"
  "servers (snd (CDPSocket_constructor w c ns)) = servers w"
  "pending (snd (CDPSocket_constructor w c ns)) = pending w"
  by (simp_all add: CDPSocket_constructor_def update_client_def client_on_def Let_def)

lemma constructor_subscribed_once:
  assumes ok: "handlers_ok w" and c: "c < length (clients w)"
  shows "subscribed_once (snd (CDPSocket_constructor w c ns)) (fst (CDPSocket_constructor w c ns))
       \<and> handlers_ok (snd (CDPSocket_constructor w c ns))
       \<and> (\<forall>s < length (sockets w). subscribed_once w s \<longrightarrow>
             subscribed_once (snd (CDPSocket_constructor w c ns)) s)"
proof -
  let ?w' = "snd (CDPSocket_constructor w c ns)"
  let ?sid = "length (sockets w)"
  have fresh: "count_list (handlers (clients w ! c')) ?sid = 0" if "c' < length (clients w)" for c'
  proof -
    have "?sid \<notin> set (handlers (clients w ! c'))"
      using handlers_okD [OF ok that, of ?sid] by auto
    then show ?thesis by (simp add: count_list_0_iff)
  qed
  have new: "subscribed_once ?w' ?sid"
    unfolding subscribed_once_iff
  proof (intro allI impI)
    fix c' assume "c' < length (clients ?w')"
    then have c': "c' < length (clients w)" by (simp add: constructor_fields)
    show "count_list (handlers (clients ?w' ! c')) ?sid
            \<le> (if cdpClient (sockets ?w' ! ?sid) = Some c' then 1 else 0)"
      using c c' fresh [OF c'] by (cases "c' = c") (simp_all add: constructor_fields)
  qed
  have hok: "handlers_ok ?w'"
    unfolding handlers_ok_def list_all_iff
  proof (intro ballI)
    fix cl h assume cl: "cl \<in> set (clients ?w')" and h: "h \<in> set (handlers cl)"
    from cl obtain c' where c': "c' < length (clients w)" and eq: "cl = clients ?w' ! c'"
      by (auto simp: in_set_conv_nth constructor_fields)
    show "h < length (sockets ?w')"
    proof (cases "c' = c")
      case True
      with h eq c have "h \<in> set (handlers (clients w ! c)) \<or> h = ?sid"
        by (auto simp: constructor_fields)
      with handlers_okD [OF ok c, of h] show ?thesis by (auto simp: constructor_fields)
    next
      case False
      with h eq c' have "h \<in> set (handlers (clients w ! c'))"
        by (simp add: constructor_fields)
      with handlers_okD [OF ok c', of h] show ?thesis by (auto simp: constructor_fields)
    qed
  qed
  have old: "subscribed_once ?w' s" if s: "s < length (sockets w)" and so: "subscribed_once w s" for s
    unfolding subscribed_once_iff
  proof (intro allI impI)
    fix c' assume "c' < length (clients ?w')"
    then have c': "c' < length (clients w)" by (simp add: constructor_fields)
    from so c' have le: "count_list (handlers (clients w ! c')) s
                      \<le> (if cdpClient (sockets w ! s) = Some c' then 1 else 0)"
      by (simp add: subscribed_once_iff)
    have "count_list (handlers (clients ?w' ! c')) s = count_list (handlers (clients w ! c')) s"
      using s c c' by (cases "c' = c") (simp_all add: constructor_fields)
    moreover have "cdpClient (sockets ?w' ! s) = cdpClient (sockets w ! s)"
      using s by (simp add: constructor_fields nth_append)
    ultimately show "count_list (handlers (clients ?w' ! c')) s
            \<le> (if cdpClient (sockets ?w' ! s) = Some c' then 1 else 0)"
      using le by simp
  qed
  from new hok old show ?thesis by (simp add: constructor_fields)
qed

lemma registry_ok_servers:
  assumes "servers w' = servers w"
  shows "registry_ok w' = registry_ok w"
  using assms by (simp add: registry_ok_def)

lemma registry_ok_constructor:
  assumes "registry_ok w"
  shows "registry_ok (snd (CDPSocketServer_constructor w path_opt namespace_opt))"
proof -
  let ?w' = "snd (CDPSocketServer_constructor w path_opt namespace_opt)"
  obtain new where s: "servers ?w' = servers w @ [new]" and m: "namespaceMap new = []"
    by (simp add: CDPSocketServer_constructor_def Let_def)
  show ?thesis
    unfolding registry_ok_iff
  proof (intro allI impI)
    fix r k c
    assume r: "r < length (servers ?w')" and kc: "(k, c) \<in> set (namespaceMap (servers ?w' ! r))"
    from r kc s m have r': "r < length (servers w)"
      by (cases "r = length (servers w)") (auto simp: nth_append)
    with kc s have old: "(k, c) \<in> set (namespaceMap (servers w ! r))" by (simp add: nth_append)
    with assms r' have "c < length (servers w)" "fullNamespace (servers w ! c) = k"
      "path (servers w ! c) = path (servers w ! r)" "k \<notin> set Object_prototype_properties"
      by (auto simp: registry_ok_iff)
    with r' s show "c < length (servers ?w') \<and> fullNamespace (servers ?w' ! c) = k
        \<and> path (servers ?w' ! c) = path (servers ?w' ! r) \<and> k \<notin> set Object_prototype_properties"
      by (simp add: nth_append)
  qed
qed

lemma registry_ok_empty: "registry_ok empty_world"
  by (simp add: registry_ok_def empty_world_def)

lemma same_shape_refl: "same_shape w w"
  by (simp add: same_shape_def)

lemma same_shape_trans: "same_shape w w1 \<Longrightarrow> same_shape w1 w2 \<Longrightarrow> same_shape w w2"
  by (simp add: same_shape_def)

lemma same_shape_lengths:
  assumes "same_shape w w'"
  shows "length (clients w') = length (clients w)" "length (sockets w') = length (sockets w)"
  using assms map_eq_imp_length_eq unfolding same_shape_def by blast+

lemma same_shape_nth:
  assumes "same_shape w w'"
  shows "c < length (clients w) \<Longrightarrow> handlers (clients w' ! c) = handlers (clients w ! c)"
    and "s < length (sockets w) \<Longrightarrow> cdpClient (sockets w' ! s) = cdpClient (sockets w ! s)"
proof -
  assume c: "c < length (clients w)"
  from assms have "map handlers (clients w') ! c = map handlers (clients w) ! c"
    by (simp add: same_shape_def)
  with c same_shape_lengths(1) [OF assms] show "handlers (clients w' ! c) = handlers (clients w ! c)"
    by simp
next
  assume s: "s < length (sockets w)"
  from assms have "map cdpClient (sockets w') ! s = map cdpClient (sockets w) ! s"
    by (simp add: same_shape_def)
  with s same_shape_lengths(2) [OF assms] show "cdpClient (sockets w' ! s) = cdpClient (sockets w ! s)"
    by simp
qed

lemma world_okD:
  assumes "world_ok w"
  shows "registry_ok w" "handlers_ok w" "sid < length (sockets w) \<Longrightarrow> subscribed_once w sid"
  using assms by (simp_all add: world_ok_def list_all_iff)

lemma world_okI:
  assumes "registry_ok w" "handlers_ok w" "\<And>sid. sid < length (sockets w) \<Longrightarrow> subscribed_once w sid"
  shows "world_ok w"
  using assms by (simp add: world_ok_def list_all_iff)

lemma handlers_ok_iff:
  "handlers_ok w \<longleftrightarrow>
     (\<forall>c < length (clients w). \<forall>h \<in> set (handlers (clients w ! c)). h < length (sockets w))"
proof -
  have "handlers_ok w \<longleftrightarrow>
      (\<forall>cl \<in> set (clients w). \<forall>h \<in> set (handlers cl). h < length (sockets w))"
    by (simp add: handlers_ok_def list_all_iff)
  also have "\<dots> \<longleftrightarrow>
      (\<forall>c < length (clients w). \<forall>h \<in> set (handlers (clients w ! c)). h < length (sockets w))"
    by (rule all_set_conv_all_nth)
  finally show ?thesis .
qed

lemma same_shape_world_ok:
  assumes sh: "same_shape w w'" and ok: "world_ok w"
  shows "world_ok w'"
proof (rule world_okI)
  note len = same_shape_lengths [OF sh]
  show "registry_ok w'"
  proof -
    from sh have "servers w' = servers w" by (simp add: same_shape_def)
    from registry_ok_servers [OF this] world_okD(1) [OF ok] show ?thesis by simp
  qed
  show "handlers_ok w'"
    unfolding handlers_ok_iff
  proof (intro allI impI ballI)
    fix c h assume "c < length (clients w')" and h: "h \<in> set (handlers (clients w' ! c))"
    then have c: "c < length (clients w)" by (simp add: len)
    from h have "h \<in> set (handlers (clients w ! c))"
      by (simp only: same_shape_nth(1) [OF sh c])
    with world_okD(2) [OF ok] c have "h < length (sockets w)"
      unfolding handlers_ok_iff by blast
    then show "h < length (sockets w')" by (simp only: len)
  qed
  fix sid assume "sid < length (sockets w')"
  then have sid: "sid < length (sockets w)" by (simp only: len)
  note so = world_okD(3) [OF ok sid, unfolded subscribed_once_iff]
  show "subscribed_once w' sid"
    unfolding subscribed_once_iff
  proof (intro allI impI)
    fix c assume "c < length (clients w')"
    then have c: "c < length (clients w)" by (simp only: len)
    from so c have "count_list (handlers (clients w ! c)) sid
                      \<le> (if cdpClient (sockets w ! sid) = Some c then 1 else 0)"
      by blast
    then show "count_list (handlers (clients w' ! c)) sid
                      \<le> (if cdpClient (sockets w' ! sid) = Some c then 1 else 0)"
      by (simp only: same_shape_nth(1) [OF sh c] same_shape_nth(2) [OF sh sid])
  qed
qed

lemma map_update_same: "(map g xs)[i := g (xs ! i)] = map g xs"
  by (cases "i < length xs") (simp_all add: list_update_same_conv list_update_beyond)

lemma map_cdpClient_update:
  "cdpClient (f (xs ! i)) = cdpClient (xs ! i) \<Longrightarrow> map cdpClient (xs[i := f (xs ! i)]) = map cdpClient xs"
  by (simp add: map_update map_update_same)

lemma map_handlers_update:
  "handlers (f (xs ! i)) = handlers (xs ! i) \<Longrightarrow> map handlers (xs[i := f (xs ! i)]) = map handlers xs"
  by (simp add: map_update map_update_same)

lemma same_shape_update_socket:
  assumes "\<And>s. cdpClient (f s) = cdpClient s"
  shows "same_shape w (update_socket w sid f)"
  using assms by (simp add: same_shape_def update_socket_def map_cdpClient_update)

lemma same_shape_uuid: "same_shape w (w\<lparr>uuid_count := n\<rparr>)"
  by (simp add: same_shape_def)

lemma same_shape_calls: "same_shape w (w\<lparr>calls := c\<rparr>)"
  by (simp add: same_shape_def)

lemma same_shape_pending: "same_shape w (w\<lparr>pending := p\<rparr>)"
  by (simp add: same_shape_def)

lemma same_shape_unhandled: "same_shape w (w\<lparr>unhandled := u\<rparr>)"
  by (simp add: same_shape_def)

lemma same_shape_and_then:
  assumes "same_shape w (snd r)" and "\<And>x w1. same_shape w1 (snd (k x w1))"
  shows "same_shape w (snd (and_then r k))"
proof (cases r)
  case (Pair c w1)
  show ?thesis
  proof (cases c)
    case (Return x)
    with Pair assms(1) assms(2) [of w1 x] show ?thesis
      by (auto intro: same_shape_trans)
  next
    case (Throw e)
    with Pair assms(1) show ?thesis by simp
  qed
qed

lemma same_shape_addListener:
  assumes "\<And>w ev args. same_shape w (snd (this_emit w ev args))"
  shows "same_shape w (snd (EventEmitter_addListener this_emit w sid type f once))"
  unfolding EventEmitter_addListener_def
  by (rule same_shape_and_then) (simp_all add: assms same_shape_refl same_shape_update_socket)

lemma same_shape_emit_within:
  "same_shape w (snd (CDPSocket_emit_within d ext w sid event args))"
proof (induction d arbitrary: w event args)
  case 0
  show ?case by (simp add: same_shape_refl)
next
  case (Suc d)
  let ?w1 = "w\<lparr>uuid_count := Suc (uuid_count w)\<rparr>"
  have 1: "same_shape w ?w1" by (rule same_shape_uuid)
  show ?case
  proof (cases event)
    case (SymbolName n)
    with 1 show ?thesis by (simp add: Let_def)
  next
    case (Name ev)
    have add: "same_shape ?w1
                 (snd (EventEmitter_addListener (\<lambda>w'. CDPSocket_emit_within d ext w' sid)
                         ?w1 sid ty f True))" for ty f
      by (rule same_shape_addListener) (rule Suc.IH)
    have "same_shape ?w1 (snd (CDPSocket_emit_within (Suc d) ext w sid (Name ev) args))"
      unfolding CDPSocket_emit_within.simps Let_def event_name.case
      by (rule same_shape_and_then)
         (simp_all add: add same_shape_refl same_shape_pending split: option.splits)
    with 1 Name show ?thesis by (auto intro: same_shape_trans)
  qed
qed

lemma same_shape_emit: "same_shape w (snd (CDPSocket_emit ext w sid event args))"
  unfolding CDPSocket_emit_def by (rule same_shape_emit_within)

lemma same_shape_invoke: "same_shape w (snd (invoke ext w f args))"
proof (cases f)
  case (UserFn n)
  then show ?thesis by (simp add: invoke_def same_shape_calls)
next
  case (AckFn sid callbackEvent)
  have "same_shape w
          (snd (and_then (CDPSocket_emit ext w sid (Name callbackEvent) args)
                  (\<lambda>b w1. (Return (), w1))))"
    by (rule same_shape_and_then) (simp_all add: same_shape_emit same_shape_refl)
  with AckFn show ?thesis by (simp add: invoke_def)
qed

lemma same_shape_removeListener:
  assumes "\<And>w ev args. same_shape w (snd (this_emit w ev args))"
  shows "same_shape w (snd (EventEmitter_removeListener this_emit w sid l))"
proof -
  let ?w1 = "update_socket w sid (\<lambda>s. s\<lparr>listeners := remove1 l (listeners s)\<rparr>)"
  have 1: "same_shape w ?w1" by (simp add: same_shape_update_socket)
  have 2: "same_shape ?w1
             (snd (and_then (this_emit ?w1 ev args) (\<lambda>b w2. (Return (), w2))))" for ev args
    by (rule same_shape_and_then) (simp_all add: assms same_shape_refl)
  show ?thesis
    unfolding EventEmitter_removeListener_def Let_def
    using 1 same_shape_trans [OF 1 2] by simp
qed

lemma same_shape_call_listener: "same_shape w (snd (call_listener ext sid args w l))"
  unfolding call_listener_def
  by (rule same_shape_and_then)
     (simp_all add: same_shape_removeListener same_shape_emit same_shape_refl same_shape_invoke)

lemma same_shape_call_listeners: "same_shape w (snd (call_listeners ext sid args w ls))"
proof (induction ls arbitrary: w)
  case Nil
  show ?case by (simp add: same_shape_refl)
next
  case (Cons l ls)
  show ?case
    unfolding call_listeners.simps
    by (rule same_shape_and_then) (simp_all add: same_shape_call_listener Cons.IH)
qed

lemma same_shape_foldl:
  assumes "\<And>w x. same_shape w (f w x)"
  shows "same_shape w (foldl f w xs)"
proof (induction xs arbitrary: w)
  case Nil
  show ?case by (simp add: same_shape_refl)
next
  case (Cons x xs)
  have "same_shape w (f w x)" by (rule assms)
  moreover have "same_shape (f w x) (foldl f (f w x) xs)" by (rule Cons.IH)
  ultimately show ?case by (simp add: same_shape_trans)
qed

lemma same_shape_super_emit: "same_shape w (snd (CDPSocket_super_emit ext w sid event args))"
  unfolding CDPSocket_super_emit_def
proof (rule same_shape_and_then)
  show "same_shape w
          (snd (if event = lit ''error'' \<and> has_listener w sid errorMonitor
                then CDPSocket_emit ext w sid errorMonitor args else (Return True, w)))"
    by (simp add: same_shape_emit same_shape_refl)
  fix b :: bool and w1
  have "same_shape w1
          (snd (and_then (call_listeners ext sid args w1 hs) (\<lambda>u w2. (Return True, w2))))" for hs
    by (rule same_shape_and_then) (simp_all add: same_shape_call_listeners same_shape_refl)
  then show "same_shape w1
          (snd (let hs = filter (\<lambda>l. l_event l = Name event) (listeners (sockets w1 ! sid))
                in if hs = [] then
                     (if event = lit ''error'' then (Throw UnhandledErrorEvent, w1)
                      else (Return False, w1))
                   else and_then (call_listeners ext sid args w1 hs)
                          (\<lambda>u w2. (Return True, w2))))"
    by (simp add: Let_def same_shape_refl)
qed

lemma same_shape_decoded:
  "same_shape w (CDPSocket_processCDPRuntimeBinding_decoded ext w sid decoded)"
proof (cases decoded)
  case (fields event callbackEvent args)
  let ?r = "CDPSocket_super_emit ext w sid event (args @ [Function (AckFn sid callbackEvent)])"
  have 1: "same_shape w (snd ?r)" by (rule same_shape_super_emit)
  show ?thesis
  proof (cases ?r)
    case (Pair c w1)
    with 1 have w1: "same_shape w w1" by simp
    show ?thesis
      using fields Pair w1 same_shape_trans [OF w1 same_shape_unhandled]
      by (cases c) (simp_all add: CDPSocket_processCDPRuntimeBinding_decoded_def)
  qed
qed

lemma same_shape_emit_encoded: "same_shape w (CDPSocket_emit_encoded w sid encoded)"
  by (simp add: same_shape_def CDPSocket_emit_encoded_def client_send_def update_client_def
      map_handlers_update Let_def split: option.splits)

lemma same_shape_settle: "same_shape w (settle ext w i)"
proof (cases "i < length (pending w)")
  case False
  then show ?thesis by (simp add: settle_def same_shape_refl)
next
  case True
  let ?w1 = "w\<lparr>pending := take i (pending w) @ drop (Suc i) (pending w)\<rparr>"
  have 1: "same_shape w ?w1" by (rule same_shape_pending)
  show ?thesis
  proof (cases "pending w ! i")
    case (Encoding sid env)
    show ?thesis
    proof (cases "encode ext env (namespace (sockets w ! sid))")
      case None
      with True Encoding have "settle ext w i = ?w1\<lparr>unhandled := unhandled ?w1 @ [EncodeRejected]\<rparr>"
        by (simp add: settle_def Let_def)
      with same_shape_trans [OF 1 same_shape_unhandled] show ?thesis by simp
    next
      case (Some encoded)
      from settle_encoding [OF True Encoding Some]
      show ?thesis using same_shape_trans [OF 1 same_shape_emit_encoded] by simp
    qed
  next
    case (Decoding sid data)
    show ?thesis
    proof (cases "decode ext data")
      case None
      with True Decoding have "settle ext w i = ?w1\<lparr>unhandled := unhandled ?w1 @ [DecodeRejected]\<rparr>"
        by (simp add: settle_def Let_def)
      with same_shape_trans [OF 1 same_shape_unhandled] show ?thesis by simp
    next
      case (Some decoded)
      from settle_decoding [OF True Decoding Some]
      show ?thesis using same_shape_trans [OF 1 same_shape_decoded] by simp
    qed
  qed
qed

lemma same_shape_process: "same_shape w (CDPSocket_processCDPRuntimeBinding ext w sid ev)"
proof -
  let ?w1 = "update_socket w sid (\<lambda>s. s\<lparr>executionContextId := Some (bc_executionContextId ev)\<rparr>)"
  have 1: "same_shape w ?w1" by (simp add: same_shape_update_socket)
  show ?thesis
    unfolding CDPSocket_processCDPRuntimeBinding_def Let_def
    using same_shape_trans [OF 1 same_shape_pending] same_shape_trans [OF 1 same_shape_unhandled]
    by (simp add: same_shape_refl split: option.splits)
qed

lemma same_shape_notify: "same_shape w (client_notify ext w c ev)"
  unfolding client_notify_def by (rule same_shape_foldl) (rule same_shape_process)

lemma same_shape_on: "same_shape w (snd (CDPSocket_on ext w sid ev f))"
  unfolding CDPSocket_on_def by (rule same_shape_addListener) (rule same_shape_emit)

lemma same_shape_once: "same_shape w (snd (CDPSocket_once ext w sid ev f))"
  unfolding CDPSocket_once_def by (rule same_shape_addListener) (rule same_shape_emit)

lemma same_shape_send: "same_shape w (snd (client_send w c cmd))"
  by (simp add: same_shape_def client_send_def update_client_def map_handlers_update)

lemma same_shape_server_emit: "same_shape w (snd (CDPSocketServer_emit ext w r event args))"
proof (cases "cdpSocket (servers w ! r)")
  case None
  then show ?thesis by (simp add: CDPSocketServer_emit_def same_shape_refl)
next
  case (Some sid)
  have "same_shape w
          (snd (and_then (CDPSocket_emit ext w sid (Name event) args) (\<lambda>b w1. (Return True, w1))))"
    by (rule same_shape_and_then) (simp_all add: same_shape_emit same_shape_refl)
  with Some show ?thesis by (simp add: CDPSocketServer_emit_def)
qed


lemma world_ok_empty: "world_ok empty_world"
  by (simp add: world_ok_def registry_ok_empty handlers_ok_def) (simp add: empty_world_def)

lemma world_ok_new_client:
  assumes "world_ok w"
  shows "world_ok (w\<lparr>clients := clients w @ [\<lparr>handlers = [], sent = [], rejects = rj\<rparr>]\<rparr>)"
proof (rule world_okI)
  let ?w' = "w\<lparr>clients := clients w @ [\<lparr>handlers = [], sent = [], rejects = rj\<rparr>]\<rparr>"
  have "servers ?w' = servers w" by simp
  from registry_ok_servers [OF this] world_okD(1) [OF assms] show "registry_ok ?w'" by simp
  show "handlers_ok ?w'"
    using world_okD(2) [OF assms] by (simp add: handlers_ok_def)
  fix sid assume "sid < length (sockets ?w')"
  then have sid: "sid < length (sockets w)" by simp
  note so = world_okD(3) [OF assms sid, unfolded subscribed_once_iff]
  show "subscribed_once ?w' sid"
    unfolding subscribed_once_iff
  proof (intro allI impI)
    fix c assume c: "c < length (clients ?w')"
    show "count_list (handlers (clients ?w' ! c)) sid
            \<le> (if cdpClient (sockets ?w' ! sid) = Some c then 1 else 0)"
    proof (cases "c < length (clients w)")
      case True
      with so show ?thesis by (simp add: nth_append)
    next
      case False
      with c have "c = length (clients w)" by simp
      then show ?thesis by simp
    qed
  qed
qed

lemma world_ok_registry:
  assumes "world_ok w" and "registry_ok w'" and "clients w' = clients w" and "sockets w' = sockets w"
  shows "world_ok w'"
proof (rule world_okI)
  show "registry_ok w'" by (rule assms(2))
  show "handlers_ok w'"
    using world_okD(2) [OF assms(1)] by (simp add: handlers_ok_def assms(3,4))
  fix sid assume "sid < length (sockets w')"
  then have "sid < length (sockets w)" by (simp add: assms(4))
  from world_okD(3) [OF assms(1) this] show "subscribed_once w' sid"
    by (simp add: subscribed_once_def assms(3,4))
qed

lemma of_frame:
  "clients (snd (CDPSocketServer_of w r ns)) = clients w"
  "sockets (snd (CDPSocketServer_of w r ns)) = sockets w"
  by (simp_all add: CDPSocketServer_of_def CDPSocketServer_constructor_def update_server_def Let_def
      split: property.splits)

lemma registry_ok_of:
  assumes "registry_ok w" and "r < length (servers w)"
  shows "registry_ok (snd (CDPSocketServer_of w r ns))"
proof (cases "CDPSocketServer_of w r ns")
  case (Pair v w')
  show ?thesis
  proof (cases v)
    case (Server c)
    with Pair of_Server [OF assms, of ns c w'] show ?thesis by simp
  next
    case (PrototypeProperty p)
    with Pair have "w' = w"
      by (auto simp: CDPSocketServer_of_def CDPSocketServer_constructor_def Let_def
          split: property.splits)
    with Pair assms(1) show ?thesis by simp
  qed
qed

lemma registry_ok_update_server:
  assumes "registry_ok w"
    and "\<And>s. namespaceMap (f s) = namespaceMap s \<and> fullNamespace (f s) = fullNamespace s
              \<and> path (f s) = path s"
  shows "registry_ok (update_server w r f)"
proof -
  let ?w' = "update_server w r f"
  have len: "length (servers ?w') = length (servers w)"
    by (simp add: update_server_def)
  have same: "namespaceMap (servers ?w' ! i) = namespaceMap (servers w ! i)
              \<and> fullNamespace (servers ?w' ! i) = fullNamespace (servers w ! i)
              \<and> path (servers ?w' ! i) = path (servers w ! i)" if "i < length (servers w)" for i
    using that assms(2) by (cases "i = r") (simp_all add: update_server_def)
  show ?thesis
    unfolding registry_ok_iff
  proof (intro allI impI)
    fix i k c
    assume i: "i < length (servers ?w')" and kc: "(k, c) \<in> set (namespaceMap (servers ?w' ! i))"
    from i have i': "i < length (servers w)" by (simp only: len)
    from kc same [OF i'] have "(k, c) \<in> set (namespaceMap (servers w ! i))" by simp
    with assms(1) i' have c: "c < length (servers w)" and rest: "fullNamespace (servers w ! c) = k"
      "path (servers w ! c) = path (servers w ! i)" "k \<notin> set Object_prototype_properties"
      by (auto simp: registry_ok_iff)
    from c rest same [OF i'] same [OF c] len
    show "c < length (servers ?w') \<and> fullNamespace (servers ?w' ! c) = k
        \<and> path (servers ?w' ! c) = path (servers ?w' ! i) \<and> k \<notin> set Object_prototype_properties"
      by simp
  qed
qed

lemma world_ok_update_server:
  assumes "world_ok w"
    and "\<And>s. namespaceMap (f s) = namespaceMap s \<and> fullNamespace (f s) = fullNamespace s
              \<and> path (f s) = path s"
  shows "world_ok (update_server w r f)"
  by (rule world_ok_registry [OF assms(1) registry_ok_update_server [OF world_okD(1) [OF assms(1)] assms(2)]])
     (simp_all add: update_server_def)

lemma world_ok_init:
  assumes ok: "world_ok w" and c: "c < length (clients w)"
  shows "world_ok (snd (CDPSocket_init w c ns))"
proof -
  let ?w1 = "snd (client_send w c Runtime_enable)"
  let ?w2 = "snd (client_send ?w1 c (Runtime_addBinding (bindingName ns)))"
  let ?w3 = "snd (CDPSocket_constructor ?w2 c ns)"
  have ok1: "world_ok ?w1" by (rule same_shape_world_ok [OF same_shape_send ok])
  have ok2: "world_ok ?w2" by (rule same_shape_world_ok [OF same_shape_send ok1])
  have c2: "c < length (clients ?w2)"
    using c by (simp add: client_send_def update_client_def)
  note con = constructor_subscribed_once [OF world_okD(2) [OF ok2] c2, of ns]
  have ok3: "world_ok ?w3"
  proof (rule world_okI)
    have "servers ?w3 = servers ?w2" by (simp add: constructor_fields)
    from registry_ok_servers [OF this] world_okD(1) [OF ok2] show "registry_ok ?w3" by simp
    from con show "handlers_ok ?w3" by blast
    fix sid assume "sid < length (sockets ?w3)"
    then have "sid < length (sockets ?w2) \<or> sid = length (sockets ?w2)"
      by (auto simp: constructor_fields)
    then show "subscribed_once ?w3 sid"
    proof
      assume s: "sid < length (sockets ?w2)"
      from con s world_okD(3) [OF ok2 s] show ?thesis by blast
    next
      assume "sid = length (sockets ?w2)"
      with con show ?thesis by (simp add: constructor_fields)
    qed
  qed
  have "snd (CDPSocket_init w c ns) = ?w1 \<or> snd (CDPSocket_init w c ns) = ?w2
        \<or> snd (CDPSocket_init w c ns) = ?w3"
    by (simp add: CDPSocket_init_def split: prod.splits)
  with ok1 ok2 ok3 show ?thesis by auto
qed

lemma world_ok_attach:
  assumes ok: "world_ok w" and c: "c < length (clients w)"
  shows "world_ok (snd (CDPSocketServer_attachCDPClient_init w r c))"
proof (cases "CDPSocket_init w c (fullNamespace (servers w ! r))")
  case (Pair res w1)
  from world_ok_init [OF ok c, of "fullNamespace (servers w ! r)"] Pair
  have ok1: "world_ok w1" by simp
  show ?thesis
  proof (cases res)
    case None
    with Pair ok1 show ?thesis by (simp add: CDPSocketServer_attachCDPClient_init_def)
  next
    case (Some sid)
    have "world_ok (update_server w1 r (\<lambda>s. s\<lparr>cdpSocket := Some sid\<rparr>))"
      by (rule world_ok_update_server [OF ok1]) simp
    with Pair Some show ?thesis by (simp add: CDPSocketServer_attachCDPClient_init_def)
  qed
qed

lemma count_list_remove1_other:
  "x \<noteq> y \<Longrightarrow> count_list (remove1 x xs) y = count_list xs y"
  by (induction xs) auto

lemma count_list_client_off_other:
  "x \<noteq> y \<Longrightarrow> count_list (client_off hs x) y = count_list hs y"
  by (simp add: client_off_def count_list_remove1_other)

lemma set_client_off: "set (client_off hs h) \<subseteq> set hs"
  using set_remove1_subset [of h "rev hs"] by (simp add: client_off_def)

lemma close_handlers_at:
  assumes "c < length (clients w)"
  shows "handlers (clients (CDPSocket_close w sid) ! c)
           = (if cdpClient (sockets w ! sid) = Some c then client_off (handlers (clients w ! c)) sid
              else handlers (clients w ! c))"
  using assms
  by (cases "cdpClient (sockets w ! sid)")
     (auto simp: CDPSocket_close_def update_socket_def update_client_def Let_def nth_list_update)

lemma world_ok_close:
  assumes ok: "world_ok w" and sid: "sid < length (sockets w)"
  shows "world_ok (CDPSocket_close w sid)"
proof (rule world_okI)
  let ?w' = "CDPSocket_close w sid"
  have len: "length (clients ?w') = length (clients w)" "length (sockets ?w') = length (sockets w)"
    by (simp_all add: close_fields)
  have "servers ?w' = servers w" by (simp add: close_fields)
  from registry_ok_servers [OF this] world_okD(1) [OF ok] show "registry_ok ?w'" by simp
  show "handlers_ok ?w'"
    unfolding handlers_ok_iff
  proof (intro allI impI ballI)
    fix c h assume "c < length (clients ?w')" and h: "h \<in> set (handlers (clients ?w' ! c))"
    then have c: "c < length (clients w)" by (simp only: len)
    from h have "h \<in> set (handlers (clients w ! c))"
      using set_client_off [of "handlers (clients w ! c)" sid]
      by (auto simp: close_handlers_at [OF c] split: if_splits)
    with world_okD(2) [OF ok] c have "h < length (sockets w)"
      unfolding handlers_ok_iff by blast
    then show "h < length (sockets ?w')" by (simp only: len)
  qed
  fix s assume "s < length (sockets ?w')"
  then have s: "s < length (sockets w)" by (simp only: len)
  show "subscribed_once ?w' s"
  proof (cases "s = sid")
    case True
    have "count_list (handlers (clients ?w' ! c)) sid = 0" if "c < length (clients w)" for c
      using close_handlers [OF world_okD(3) [OF ok sid] that] by (simp add: count_list_0_iff)
    with True show ?thesis by (simp add: subscribed_once_iff len)
  next
    case False
    note so = world_okD(3) [OF ok s, unfolded subscribed_once_iff]
    have cl: "cdpClient (sockets ?w' ! s) = cdpClient (sockets w ! s)"
      using False by (simp add: close_fields)
    show ?thesis
      unfolding subscribed_once_iff
    proof (intro allI impI)
      fix c assume "c < length (clients ?w')"
      then have c: "c < length (clients w)" by (simp only: len)
      have "count_list (handlers (clients ?w' ! c)) s = count_list (handlers (clients w ! c)) s"
        using False by (simp add: close_handlers_at [OF c] count_list_client_off_other)
      with so c cl show "count_list (handlers (clients ?w' ! c)) s
                      \<le> (if cdpClient (sockets ?w' ! s) = Some c then 1 else 0)"
        by simp
    qed
  qed
qed

lemma same_shape_client_changes: "same_shape w (update_client w c (\<lambda>cl. cl\<lparr>rejects := rj\<rparr>))"
  by (simp add: same_shape_def update_client_def map_handlers_update)

theorem reachable_world_ok:
  assumes "reachable ext w"
  shows "world_ok w"
  using assms
proof (induction rule: reachable.induct)
  case start
  show ?case by (rule world_ok_empty)
next
  case (new_client w rj)
  then show ?case by (simp add: world_ok_new_client)
next
  case (client_changes w c rj)
  from same_shape_world_ok [OF same_shape_client_changes client_changes.IH] show ?case .
next
  case (new_server w path_opt namespace_opt)
  show ?case
    by (rule world_ok_registry [OF new_server.IH registry_ok_constructor [OF world_okD(1) [OF new_server.IH]]])
       (simp_all add: CDPSocketServer_constructor_def Let_def)
next
  case (server_of w r ns)
  show ?case
    by (rule world_ok_registry [OF server_of.IH registry_ok_of [OF world_okD(1) [OF server_of.IH] server_of.hyps(2)]])
       (simp_all add: of_frame)
next
  case (server_emit w r event args)
  from same_shape_world_ok [OF same_shape_server_emit server_emit.IH] show ?case .
next
  case (server_attach w c r)
  then show ?case by (simp add: world_ok_attach)
next
  case (server_fields w r sock ls)
  show ?case
    by (rule world_ok_update_server [OF server_fields.IH]) simp
next
  case (socket_init w c ns)
  then show ?case by (simp add: world_ok_init)
next
  case (socket_emit w sid event args)
  from same_shape_world_ok [OF same_shape_emit socket_emit.IH] show ?case .
next
  case (socket_on w sid event f)
  from same_shape_world_ok [OF same_shape_on socket_on.IH] show ?case .
next
  case (socket_once w sid event f)
  from same_shape_world_ok [OF same_shape_once socket_once.IH] show ?case .
next
  case (socket_listeners w sid ls)
  show ?case
    by (rule same_shape_world_ok [OF _ socket_listeners.IH]) (simp add: same_shape_update_socket)
next
  case (socket_close w sid)
  then show ?case by (simp add: world_ok_close)
next
  case (notified w c ev)
  from same_shape_world_ok [OF same_shape_notify notified.IH] show ?case .
next
  case (settled w i)
  from same_shape_world_ok [OF same_shape_settle settled.IH] show ?case .
next
  case (called w f args)
  from same_shape_world_ok [OF same_shape_invoke called.IH] show ?case .
qed

corollary reachable_invariants:
  assumes "reachable ext w"
  shows "registry_ok w" and "handlers_ok w"
    and "sid < length (sockets w) \<Longrightarrow> subscribed_once w sid"
  using world_okD [OF reachable_world_ok [OF assms]] by blast+

end
